theory Spec2Isabelle
  imports Main
begin


section \<open>Errors raised by the kernel builders\<close>

text \<open>
  Every exception the modelled Python code can raise is a value. \<open>AxisError\<close> is NumPy's
  exception for an axis outside the rank; in NumPy it is a subclass of both
  \<open>ValueError\<close> and \<open>IndexError\<close>, which \<open>is_value_error\<close> records.
\<close>

datatype error =
    NotImplementedError
  | ValueError
  | AxisError
  | TypingError
  | OverflowError
  | IndexError
  | StopIteration

definition is_value_error :: "error \<Rightarrow> bool" where
  "is_value_error e = (e = ValueError \<or> e = AxisError)"

section \<open>Static broadcasting of dimension lengths (pytensor/tensor/utils.py)\<close>

text \<open>
  \<^verbatim>\<open>broadcast_static_dim_lengths\<close> builds the Python set of its argument. The set is kept
  here as the duplicate-free list \<open>remdups dim_lengths\<close>; \<open>discard\<close> is \<open>removeAll\<close>.
  A static length is a Python integer or \<open>None\<close>.
\<close>

definition broadcast_static_dim_lengths :: "int option list \<Rightarrow> error + int option" where
  "broadcast_static_dim_lengths dim_lengths =
     (let dim_lengths_set = remdups dim_lengths in
      case dim_lengths_set of
        [x] \<Rightarrow> Inr x
      | _ \<Rightarrow>
        if set dim_lengths_set = {None, Some 1} then Inr None
        else
          (let rest = removeAll None (removeAll (Some 1) dim_lengths_set) in
           case rest of
             [] \<Rightarrow> Inl StopIteration
           | [y] \<Rightarrow> Inr y
           | _ \<Rightarrow> Inl ValueError))"

text \<open>What is left of the set after both \<^verbatim>\<open>discard\<close> calls.\<close>

definition rest_of :: "int option list \<Rightarrow> int option list" where
  "rest_of dims = removeAll None (removeAll (Some 1) (remdups dims))"


section \<open>Scalar in-place statements (scalar_in_place_fn)\<close>

text \<open>
  The classes on which \<^verbatim>\<open>scalar_in_place_fn\<close> dispatches. \<open>Unregistered\<close> stands for
  any other scalar \<^verbatim>\<open>Op\<close> class (its name is carried along); for it the dispatcher
  falls back to the base implementation, which raises.
\<close>

datatype scalar_op =
    Add | Sub | Mean | Mul | MulWithoutZeros
  | AND | OR | XOR
  | TrueDiv | IntDiv
  | ScalarMaximum | ScalarMinimum
  | Unregistered string

definition newline :: char where
  "newline = CHR 0x0A"

text \<open>The statement text, with \<open>idx\<close>, \<open>res\<close> and \<open>arr\<close> substituted as the f-strings do.\<close>

fun scalar_in_place_fn :: "scalar_op \<Rightarrow> string \<Rightarrow> string \<Rightarrow> string \<Rightarrow> error + string" where
  "scalar_in_place_fn Add idx res arr = Inr (res @ ''['' @ idx @ ''] += '' @ arr)"
| "scalar_in_place_fn Sub idx res arr = Inr (res @ ''['' @ idx @ ''] -= '' @ arr)"
| "scalar_in_place_fn Mean idx res arr =
     Inr (res @ ''['' @ idx @ ''] += ('' @ arr @ '' - '' @ res @ ''['' @ idx @ '']) / (i + 1)'')"
| "scalar_in_place_fn Mul idx res arr = Inr (res @ ''['' @ idx @ ''] *= '' @ arr)"
| "scalar_in_place_fn MulWithoutZeros idx res arr =
     Inr (res @ ''['' @ idx @ ''] = '' @ arr @ '' if '' @ res @ ''['' @ idx @ ''] == 0 else (''
          @ res @ ''['' @ idx @ ''] if '' @ arr @ '' == 0 else '' @ res @ ''['' @ idx @ ''] * ''
          @ arr @ '')'')"
| "scalar_in_place_fn AND idx res arr = Inr (res @ ''['' @ idx @ ''] &= '' @ arr)"
| "scalar_in_place_fn OR idx res arr = Inr (res @ ''['' @ idx @ ''] |= '' @ arr)"
| "scalar_in_place_fn XOR idx res arr = Inr (res @ ''['' @ idx @ ''] ^= '' @ arr)"
| "scalar_in_place_fn TrueDiv idx res arr = Inr (res @ ''['' @ idx @ ''] /= '' @ arr)"
| "scalar_in_place_fn IntDiv idx res arr = Inr (res @ ''['' @ idx @ ''] //= '' @ arr)"
| "scalar_in_place_fn ScalarMaximum idx res arr =
     Inr ([newline] @ ''if '' @ res @ ''['' @ idx @ ''] < '' @ arr @ '':'' @ [newline]
          @ ''    '' @ res @ ''['' @ idx @ ''] = '' @ arr @ [newline])"
| "scalar_in_place_fn ScalarMinimum idx res arr =
     Inr ([newline] @ ''if '' @ res @ ''['' @ idx @ ''] > '' @ arr @ '':'' @ [newline]
          @ ''    '' @ res @ ''['' @ idx @ ''] = '' @ arr @ [newline])"
| "scalar_in_place_fn (Unregistered name) idx res arr = Inl NotImplementedError"

text \<open>
  The statements as the specification lists them (section 4.1), written from its words
  with the same three names substituted; an operator kind outside the registry is the
  specification's unimplemented-operation failure.
\<close>

fun spec_in_place_statement :: "scalar_op \<Rightarrow> string \<Rightarrow> string \<Rightarrow> string \<Rightarrow> error + string" where
  "spec_in_place_statement Add idx res arr = Inr (res @ ''['' @ idx @ ''] += '' @ arr)"
| "spec_in_place_statement Sub idx res arr = Inr (res @ ''['' @ idx @ ''] -= '' @ arr)"
| "spec_in_place_statement Mean idx res arr =
     Inr (res @ ''['' @ idx @ ''] += ('' @ arr @ '' - '' @ res @ ''['' @ idx @ '']) / (i + 1)'')"
| "spec_in_place_statement Mul idx res arr = Inr (res @ ''['' @ idx @ ''] *= '' @ arr)"
| "spec_in_place_statement MulWithoutZeros idx res arr =
     Inr (res @ ''['' @ idx @ ''] = '' @ arr @ '' if '' @ res @ ''['' @ idx @ '']==0 else (''
          @ res @ ''['' @ idx @ ''] if '' @ arr @ ''==0 else '' @ res @ ''['' @ idx @ '']*''
          @ arr @ '')'')"
| "spec_in_place_statement AND idx res arr = Inr (res @ ''['' @ idx @ ''] &= '' @ arr)"
| "spec_in_place_statement OR idx res arr = Inr (res @ ''['' @ idx @ ''] |= '' @ arr)"
| "spec_in_place_statement XOR idx res arr = Inr (res @ ''['' @ idx @ ''] ^= '' @ arr)"
| "spec_in_place_statement TrueDiv idx res arr = Inr (res @ ''['' @ idx @ ''] /= '' @ arr)"
| "spec_in_place_statement IntDiv idx res arr = Inr (res @ ''['' @ idx @ ''] //= '' @ arr)"
| "spec_in_place_statement ScalarMaximum idx res arr =
     Inr (''if '' @ res @ ''['' @ idx @ ''] < '' @ arr @ '': '' @ res @ ''['' @ idx @ ''] = '' @ arr)"
| "spec_in_place_statement ScalarMinimum idx res arr =
     Inr (''if '' @ res @ ''['' @ idx @ ''] > '' @ arr @ '': '' @ res @ ''['' @ idx @ ''] = '' @ arr)"
| "spec_in_place_statement (Unregistered name) idx res arr = Inl NotImplementedError"

text \<open>Layout characters (blank and line break) removed, to compare statements up to layout.\<close>

definition squeeze :: "string \<Rightarrow> string" where
  "squeeze s = filter (\<lambda>c. c \<noteq> CHR '' '' \<and> c \<noteq> newline) s"

text \<open>
  What two of the statements compute for the stored value \<open>r = res[idx]\<close> and the operand
  \<open>a = arr\<close>: the conditional expression of \<open>MulWithoutZeros\<close>, and the running mean of
  \<open>Mean\<close> with the loop counter \<open>i\<close> of the enclosing \<^verbatim>\<open>for i in range(...)\<close>.
\<close>

definition mul_without_zeros_update :: "'a::mult_zero \<Rightarrow> 'a \<Rightarrow> 'a" where
  "mul_without_zeros_update r a = (if r = 0 then a else (if a = 0 then r else r * a))"

definition mean_update :: "nat \<Rightarrow> 'a::field \<Rightarrow> 'a \<Rightarrow> 'a" where
  "mean_update i r a = r + (a - r) / (of_nat i + 1)"


section \<open>Data types and reduction identities (numba_funcify_CAReduce)\<close>

text \<open>
  A NumPy dtype, as far as the builders look at it: its kind (\<^verbatim>\<open>dtype.kind\<close> is
  \<^verbatim>\<open>'b'\<close>, \<^verbatim>\<open>'i'\<close>, \<^verbatim>\<open>'u'\<close>, \<^verbatim>\<open>'f'\<close> or \<^verbatim>\<open>'c'\<close>) and its width in bits.
\<close>

datatype dtype_kind = BoolKind | SignedInt | UnsignedInt | Floating | ComplexKind

datatype dtype = DType (kind: dtype_kind) (bits: nat)

text \<open>\<^verbatim>\<open>np.iinfo(dtype).max\<close> and \<^verbatim>\<open>np.iinfo(dtype).min\<close> for the two integer kinds.\<close>

definition iinfo_max :: "dtype \<Rightarrow> int" where
  "iinfo_max dt = (if kind dt = UnsignedInt then 2 ^ bits dt - 1 else 2 ^ (bits dt - 1) - 1)"

definition iinfo_min :: "dtype \<Rightarrow> int" where
  "iinfo_min dt = (if kind dt = UnsignedInt then 0 else - (2 ^ (bits dt - 1)))"

text \<open>
  The nominal identity of a scalar operator (\<^verbatim>\<open>op.scalar_op.identity\<close>): a number, or
  one of the two infinities (the identities of minimum and maximum).
\<close>

datatype 'a identity = Finite 'a | PosInf | NegInf

fun isfinite :: "'a identity \<Rightarrow> bool" where
  "isfinite (Finite v) = True"
| "isfinite PosInf = False"
| "isfinite NegInf = False"

fun isposinf :: "'a identity \<Rightarrow> bool" where
  "isposinf PosInf = True"
| "isposinf (Finite v) = False"
| "isposinf NegInf = False"

text \<open>
  The accumulator dtype (the operator's \<^verbatim>\<open>acc_dtype\<close> when it has one, otherwise the
  output dtype) and the replacement of an infinite identity when that dtype has kind
  \<^verbatim>\<open>'i'\<close>, as \<^verbatim>\<open>numba_funcify_CAReduce\<close> does before building the reducer.
\<close>

definition resolve_acc_dtype :: "dtype option \<Rightarrow> dtype \<Rightarrow> dtype" where
  "resolve_acc_dtype acc_dtype out_dtype = (case acc_dtype of Some d \<Rightarrow> d | None \<Rightarrow> out_dtype)"

definition careduce_identity :: "dtype \<Rightarrow> 'a::ring_1 identity \<Rightarrow> 'a identity" where
  "careduce_identity np_acc_dtype scalar_op_identity =
     (if kind np_acc_dtype = SignedInt \<and> \<not> isfinite scalar_op_identity then
        (if isposinf scalar_op_identity then Finite (of_int (iinfo_max np_acc_dtype))
         else Finite (of_int (iinfo_min np_acc_dtype)))
      else scalar_op_identity)"


section \<open>Arrays\<close>

text \<open>
  An n-dimensional array is its shape and its elements in C (row-major) order, the order
  of \<^verbatim>\<open>np.ascontiguousarray\<close>. A kernel returns either such an array or a plain scalar
  (\<^verbatim>\<open>res.item()\<close>, the constant \<^verbatim>\<open>0\<close> of the rank-0 argmax).
\<close>

datatype 'a ndarray = NDArray (shape: "nat list") (data: "'a list")

datatype 'a pyvalue = Scalar 'a | Array "'a ndarray"

definition wf_array :: "'a ndarray \<Rightarrow> bool" where
  "wf_array x = (length (data x) = prod_list (shape x))"

text \<open>\<^verbatim>\<open>np.ndindex(shape)\<close>: every index tuple, the last axis running fastest.\<close>

fun ndindex :: "nat list \<Rightarrow> nat list list" where
  "ndindex [] = [[]]"
| "ndindex (n # ns) = concat (map (\<lambda>i. map ((#) i) (ndindex ns)) [0..<n])"

text \<open>The position of the element with index tuple \<open>idx\<close> in the C-ordered data.\<close>

fun flat_index :: "nat list \<Rightarrow> nat list \<Rightarrow> nat" where
  "flat_index (n # ns) (i # is) = i * prod_list ns + flat_index ns is"
| "flat_index ns is = 0"

definition getitem :: "'a ndarray \<Rightarrow> nat list \<Rightarrow> 'a" where
  "getitem x idx = data x ! flat_index (shape x) idx"

text \<open>
  NumPy's \<^verbatim>\<open>normalize_axis_index\<close> and \<^verbatim>\<open>normalize_axis_tuple\<close> (the latter with its default
  \<^verbatim>\<open>allow_duplicate=False\<close>): a negative axis counts from the end, an axis outside
  \<open>[-ndim, ndim)\<close> raises \<open>AxisError\<close>, a repeated axis raises \<open>ValueError\<close>.
\<close>

definition normalize_axis_index :: "int \<Rightarrow> nat \<Rightarrow> error + nat" where
  "normalize_axis_index axis ndim =
     (if - int ndim \<le> axis \<and> axis < int ndim
      then Inr (nat (if axis < 0 then axis + int ndim else axis))
      else Inl AxisError)"

fun map_result :: "('a \<Rightarrow> error + 'b) \<Rightarrow> 'a list \<Rightarrow> error + 'b list" where
  "map_result f [] = Inr []"
| "map_result f (x # xs) =
     (case f x of
        Inl e \<Rightarrow> Inl e
      | Inr y \<Rightarrow> (case map_result f xs of Inl e \<Rightarrow> Inl e | Inr ys \<Rightarrow> Inr (y # ys)))"

definition normalize_axis_tuple :: "int list \<Rightarrow> nat \<Rightarrow> error + nat list" where
  "normalize_axis_tuple axes ndim =
     (case map_result (\<lambda>ax. normalize_axis_index ax ndim) axes of
        Inl e \<Rightarrow> Inl e
      | Inr axs \<Rightarrow> if distinct axs then Inr axs else Inl ValueError)"

text \<open>
  \<^verbatim>\<open>np.transpose(x, axes)\<close>: the axes must be as many as the rank, each in range and none
  repeated; axis \<open>k\<close> of the result is axis \<open>axes[k]\<close> of \<open>x\<close>. \<open>source_index\<close> is the
  index into \<open>x\<close> of the element that the result holds at \<open>j\<close>.
\<close>

definition index_of :: "'a \<Rightarrow> 'a list \<Rightarrow> nat" where
  "index_of a xs = length (takeWhile (\<lambda>b. b \<noteq> a) xs)"

definition source_index :: "nat list \<Rightarrow> nat list \<Rightarrow> nat list" where
  "source_index perm j = map (\<lambda>d. j ! index_of d perm) [0..<length perm]"

definition permute_axes :: "'a ndarray \<Rightarrow> nat list \<Rightarrow> 'a ndarray" where
  "permute_axes x perm =
     (let new_shape = map (\<lambda>a. shape x ! a) perm
      in NDArray new_shape (map (\<lambda>j. getitem x (source_index perm j)) (ndindex new_shape)))"

definition np_transpose :: "'a ndarray \<Rightarrow> int list \<Rightarrow> error + 'a ndarray" where
  "np_transpose x axes =
     (if length axes \<noteq> length (shape x) then Inl ValueError
      else case normalize_axis_tuple axes (length (shape x)) of
             Inl e \<Rightarrow> Inl e
           | Inr perm \<Rightarrow> Inr (permute_axes x perm))"

text \<open>\<^verbatim>\<open>np.reshape\<close> of a contiguous array: the element count must not change.\<close>

definition np_reshape :: "'a ndarray \<Rightarrow> nat list \<Rightarrow> error + 'a ndarray" where
  "np_reshape x new_shape =
     (if prod_list new_shape = length (data x) then Inr (NDArray new_shape (data x))
      else Inl ValueError)"


section \<open>The numeric runtime\<close>

text \<open>
  What the generated statements and the array stores compute is given by Python, NumPy and
  Numba, not by this repository; the kernels take it as a parameter:
  \<open>stmt k i r a\<close> is the value that the in-place statement of operator kind \<open>k\<close> leaves in
  \<open>res[idx]\<close> when the loop counter is \<open>i\<close>, the stored value is \<open>r\<close> and the operand is
  \<open>a\<close>; \<open>astype d v\<close> is \<open>v\<close> converted to dtype \<open>d\<close>; \<open>pos_inf\<close> and \<open>neg_inf\<close> are
  the values of \<^verbatim>\<open>np.inf\<close> and \<^verbatim>\<open>-np.inf\<close>.
\<close>

record 'a runtime =
  stmt :: "scalar_op \<Rightarrow> nat \<Rightarrow> 'a \<Rightarrow> 'a \<Rightarrow> 'a"
  astype :: "dtype \<Rightarrow> 'a \<Rightarrow> 'a"
  pos_inf :: "'a"
  neg_inf :: "'a"

type_synonym 'a kernel = "'a ndarray \<Rightarrow> error + 'a pyvalue"

section \<open>Single-axis reducer (create_axis_reducer)\<close>

fun digit_char :: "nat \<Rightarrow> char" where
  "digit_char n = (''0123456789'' ! (n mod 10))"

fun string_of_nat :: "nat \<Rightarrow> string" where
  "string_of_nat n = (if n < 10 then [digit_char n] else string_of_nat (n div 10) @ [digit_char n])"

declare string_of_nat.simps [simp del]

fun join_strings :: "string \<Rightarrow> string list \<Rightarrow> string" where
  "join_strings sep [] = []"
| "join_strings sep [s] = s"
| "join_strings sep (s # t # ss) = s @ sep @ join_strings sep (t # ss)"

text \<open>The index expressions built by the loop over \<open>range(ndim)\<close>.\<close>

definition res_indices :: "nat \<Rightarrow> nat \<Rightarrow> string" where
  "res_indices axis ndim =
     join_strings '', '' (map (\<lambda>c. ''idx_arr['' @ string_of_nat c @ '']'') [0..<ndim - 1])"

definition arr_indices :: "nat \<Rightarrow> nat \<Rightarrow> string" where
  "arr_indices axis ndim =
     join_strings '', ''
       (map (\<lambda>i. if i = axis then ''i''
                 else ''idx_arr['' @ string_of_nat (if i < axis then i else i - 1) @ '']'')
            [0..<ndim])"

text \<open>
  The value \<^verbatim>\<open>np.full(..., to_scalar(identity), dtype=out_dtype)\<close> fills the result with.
\<close>

definition fill_value :: "'a runtime \<Rightarrow> dtype \<Rightarrow> 'a identity \<Rightarrow> 'a" where
  "fill_value rt dt ident =
     astype rt dt (case ident of Finite v \<Rightarrow> v | PosInf \<Rightarrow> pos_inf rt | NegInf \<Rightarrow> neg_inf rt)"

text \<open>
  One run of the inner loop \<^verbatim>\<open>for i in range(axis_shape)\<close>: the statement is applied to
  the slot for \<open>i = 0, 1, ...\<close> in this order, each result stored at the output dtype;
  \<open>operand i\<close> is the element of \<open>x\<close> the statement reads at counter \<open>i\<close>.
\<close>

definition accumulate :: "'a runtime \<Rightarrow> scalar_op \<Rightarrow> dtype \<Rightarrow> 'a \<Rightarrow> (nat \<Rightarrow> 'a) \<Rightarrow> nat \<Rightarrow> 'a" where
  "accumulate rt k dt init operand axis_shape =
     foldl (\<lambda>r i. astype rt dt (stmt rt k i r (operand i))) init [0..<axis_shape]"

text \<open>The generated \<^verbatim>\<open>careduce_axis\<close> for \<open>ndim > 1\<close>.\<close>

definition careduce_axis_nd ::
  "'a runtime \<Rightarrow> scalar_op \<Rightarrow> 'a identity \<Rightarrow> nat \<Rightarrow> nat \<Rightarrow> dtype \<Rightarrow> bool \<Rightarrow> 'a kernel" where
  "careduce_axis_nd rt k ident axis ndim dt keepdims x =
     (if length (shape x) \<noteq> ndim then Inl TypingError
      else
        let x_shape = shape x;
            res_shape = map (\<lambda>i. if i < axis then x_shape ! i else x_shape ! (i + 1)) [0..<ndim - 1];
            axis_shape = x_shape ! axis;
            res = map (\<lambda>idx_arr.
                         accumulate rt k dt (fill_value rt dt ident)
                           (\<lambda>i. getitem x (take axis idx_arr @ [i] @ drop axis idx_arr)) axis_shape)
                      (ndindex res_shape)
        in Inr (Array (NDArray (if keepdims then take axis res_shape @ [1] @ drop axis res_shape
                                else res_shape) res)))"

text \<open>The generated \<^verbatim>\<open>careduce_axis\<close> for a one-dimensional input.\<close>

definition careduce_axis_1d ::
  "'a runtime \<Rightarrow> scalar_op \<Rightarrow> 'a identity \<Rightarrow> nat \<Rightarrow> nat \<Rightarrow> dtype \<Rightarrow> bool \<Rightarrow> bool \<Rightarrow> 'a kernel" where
  "careduce_axis_1d rt k ident axis ndim dt keepdims return_scalar x =
     (if length (shape x) \<noteq> ndim then Inl TypingError
      else
        let axis_shape = shape x ! axis;
            r = accumulate rt k dt (fill_value rt dt ident) (\<lambda>i. data x ! i) axis_shape
        in if keepdims then Inr (Array (NDArray [1] [r]))
           else if return_scalar then Inr (Scalar r)
           else Inr (Array (NDArray [] [r])))"

definition create_axis_reducer ::
  "'a runtime \<Rightarrow> scalar_op \<Rightarrow> 'a identity \<Rightarrow> int \<Rightarrow> nat \<Rightarrow> dtype \<Rightarrow> bool \<Rightarrow> bool
     \<Rightarrow> error + 'a kernel" where
  "create_axis_reducer rt scalar_op ident axis ndim dt keepdims return_scalar =
     (case normalize_axis_index axis ndim of
        Inl e \<Rightarrow> Inl e
      | Inr ax \<Rightarrow>
          if ndim > 1 then
            (case scalar_in_place_fn scalar_op (res_indices ax ndim) ''res''
                    (''x['' @ arr_indices ax ndim @ '']'') of
               Inl e \<Rightarrow> Inl e
             | Inr inplace_update_statement \<Rightarrow>
                 Inr (careduce_axis_nd rt scalar_op ident ax ndim dt keepdims))
          else
            (case scalar_in_place_fn scalar_op ''0'' ''res'' ''x[i]'' of
               Inl e \<Rightarrow> Inl e
             | Inr inplace_update_statement \<Rightarrow>
                 Inr (careduce_axis_1d rt scalar_op ident ax ndim dt keepdims return_scalar)))"

section \<open>Multi-axis reducer (create_multiaxis_reducer)\<close>

text \<open>
  The loop over \<open>enumerate(to_reduce)\<close>: one single-axis reducer per axis, built for the
  rank left at that step (\<^verbatim>\<open>ndim -= 1\<close> after each).
\<close>

fun build_reducers ::
  "'a runtime \<Rightarrow> scalar_op \<Rightarrow> 'a identity \<Rightarrow> nat list \<Rightarrow> nat \<Rightarrow> dtype \<Rightarrow> error + 'a kernel list" where
  "build_reducers rt scalar_op ident [] ndim dt = Inr []"
| "build_reducers rt scalar_op ident (axis # to_reduce) ndim dt =
     (case create_axis_reducer rt scalar_op ident (int axis) ndim dt False False of
        Inl e \<Rightarrow> Inl e
      | Inr reducer_fn \<Rightarrow>
          (case build_reducers rt scalar_op ident to_reduce (ndim - 1) dt of
             Inl e \<Rightarrow> Inl e
           | Inr fns \<Rightarrow> Inr (reducer_fn # fns)))"

text \<open>
  The generated body \<^verbatim>\<open>axis_0_res = careduce_axes_fn_0(input); axis_1_res = ...\<close>: each
  result is the next reducer's input.
\<close>

fun run_chain :: "'a kernel list \<Rightarrow> 'a ndarray \<Rightarrow> error + 'a ndarray" where
  "run_chain [] x = Inr x"
| "run_chain (f # fs) x =
     (case f x of
        Inl e \<Rightarrow> Inl e
      | Inr (Array y) \<Rightarrow> run_chain fs y
      | Inr (Scalar s) \<Rightarrow> Inl TypingError)"

text \<open>\<^verbatim>\<open>np.asarray(v)\<close>, followed by \<^verbatim>\<open>.item()\<close> when a scalar is asked for.\<close>

definition coerce_result :: "bool \<Rightarrow> 'a ndarray \<Rightarrow> error + 'a pyvalue" where
  "coerce_result return_scalar v =
     (if \<not> return_scalar then Inr (Array v)
      else case data v of [s] \<Rightarrow> Inr (Scalar s) | _ \<Rightarrow> Inl ValueError)"

definition create_multiaxis_reducer ::
  "'a runtime \<Rightarrow> scalar_op \<Rightarrow> 'a identity \<Rightarrow> int list \<Rightarrow> nat \<Rightarrow> dtype \<Rightarrow> bool
     \<Rightarrow> error + 'a kernel" where
  "create_multiaxis_reducer rt scalar_op ident axes ndim dt return_scalar =
     (case axes of
        [axis] \<Rightarrow> create_axis_reducer rt scalar_op ident axis ndim dt False False
      | _ \<Rightarrow>
         (case normalize_axis_tuple axes ndim of
            Inl e \<Rightarrow> Inl e
          | Inr axes' \<Rightarrow>
              let to_reduce = rev (sort axes') in
              (case build_reducers rt scalar_op ident to_reduce ndim dt of
                 Inl e \<Rightarrow> Inl e
               | Inr fns \<Rightarrow>
                   Inr (\<lambda>x. case run_chain fns x of
                              Inl e \<Rightarrow> Inl e
                            | Inr v \<Rightarrow> coerce_result return_scalar v))))"


text \<open>
  Folding a list of axes one at a time, as the specification describes the composer: the
  single-axis reducer for the first axis of the list is applied at the current rank, its
  result is the input for the rest of the list at one rank less. For the list
  \<open>R - 1, ..., 1, 0\<close> this is one single-axis reduction per axis, from the highest axis
  index down to the lowest.
\<close>

fun fold_axes ::
  "'a runtime \<Rightarrow> scalar_op \<Rightarrow> 'a identity \<Rightarrow> dtype \<Rightarrow> nat list \<Rightarrow> nat \<Rightarrow> 'a ndarray
     \<Rightarrow> error + 'a ndarray" where
  "fold_axes rt k ident dt [] ndim x = Inr x"
| "fold_axes rt k ident dt (axis # rest) ndim x =
     (case create_axis_reducer rt k ident (int axis) ndim dt False False of
        Inl e \<Rightarrow> Inl e
      | Inr f \<Rightarrow>
          (case f x of
             Inl e \<Rightarrow> Inl e
           | Inr (Array y) \<Rightarrow> fold_axes rt k ident dt rest (ndim - 1) y
           | Inr (Scalar s) \<Rightarrow> Inl TypingError))"

definition registered :: "scalar_op \<Rightarrow> bool" where
  "registered k = (case k of Unregistered name \<Rightarrow> False | _ \<Rightarrow> True)"

section \<open>An integer runtime for the examples\<close>

text \<open>
  Arrays of Python integers. The statements that stay within the integers have their
  integer meaning; integer division (which fails on a zero divisor) and the two kinds
  that go through floating point (\<open>TrueDiv\<close>, \<open>Mean\<close>) are outside this runtime and left
  unspecified, as are the infinities and conversions to non-integer dtypes. A store into
  an integer dtype wraps around at the dtype's width.
\<close>

fun int_stmt :: "scalar_op \<Rightarrow> nat \<Rightarrow> int \<Rightarrow> int \<Rightarrow> int" where
  "int_stmt Add i r a = r + a"
| "int_stmt Sub i r a = r - a"
| "int_stmt Mul i r a = r * a"
| "int_stmt MulWithoutZeros i r a = mul_without_zeros_update r a"
| "int_stmt AND i r a = and r a"
| "int_stmt OR i r a = or r a"
| "int_stmt XOR i r a = xor r a"
| "int_stmt ScalarMaximum i r a = (if r < a then a else r)"
| "int_stmt ScalarMinimum i r a = (if r > a then a else r)"
| "int_stmt Mean i r a = undefined"
| "int_stmt TrueDiv i r a = undefined"
| "int_stmt IntDiv i r a = undefined"
| "int_stmt (Unregistered name) i r a = undefined"

definition int_astype :: "dtype \<Rightarrow> int \<Rightarrow> int" where
  "int_astype dt v =
     (case kind dt of
        SignedInt \<Rightarrow> (v + 2 ^ (bits dt - 1)) mod 2 ^ bits dt - 2 ^ (bits dt - 1)
      | UnsignedInt \<Rightarrow> v mod 2 ^ bits dt
      | BoolKind \<Rightarrow> (if v = 0 then 0 else 1)
      | _ \<Rightarrow> undefined)"

definition int_runtime :: "int runtime" where
  "int_runtime = \<lparr>stmt = int_stmt, astype = int_astype, pos_inf = undefined, neg_inf = undefined\<rparr>"

definition int64 :: dtype where
  "int64 = DType SignedInt 64"


section \<open>Sum and CAReduce kernels (numba_funcify_Sum, numba_funcify_CAReduce)\<close>

text \<open>
  The fields of a \<^verbatim>\<open>CAReduce\<close> operator that the builders read: the scalar operator's
  class and its \<^verbatim>\<open>identity\<close>, the \<^verbatim>\<open>axis\<close> (\<open>None\<close> for all axes) and the optional
  \<^verbatim>\<open>acc_dtype\<close>. Of the node they read the input's rank and the output's dtype.
\<close>

record 'a careduce_op =
  op_scalar_op :: scalar_op
  op_identity :: "'a identity"
  op_axis :: "int list option"
  op_acc_dtype :: "dtype option"

text \<open>
  \<^verbatim>\<open>np.array(scalar_op_identity, dtype=np_acc_dtype)\<close>: a number is converted to the dtype;
  NumPy refuses to convert an infinite Python float to an integer dtype.
\<close>

definition np_array_identity :: "'a runtime \<Rightarrow> dtype \<Rightarrow> 'a identity \<Rightarrow> error + 'a identity" where
  "np_array_identity rt dt ident =
     (case ident of
        Finite v \<Rightarrow> Inr (Finite (astype rt dt v))
      | _ \<Rightarrow> if kind dt = SignedInt \<or> kind dt = UnsignedInt then Inl OverflowError
             else Inr ident)"

definition numba_funcify_CAReduce ::
  "'a::ring_1 runtime \<Rightarrow> 'a careduce_op \<Rightarrow> nat \<Rightarrow> dtype \<Rightarrow> error + 'a kernel" where
  "numba_funcify_CAReduce rt op ndim out_dtype =
     (let axes = (case op_axis op of None \<Rightarrow> map int [0..<ndim] | Some a \<Rightarrow> a);
          np_acc_dtype = resolve_acc_dtype (op_acc_dtype op) out_dtype;
          scalar_op_identity = careduce_identity np_acc_dtype (op_identity op)
      in case np_array_identity rt np_acc_dtype scalar_op_identity of
           Inl e \<Rightarrow> Inl e
         | Inr scalar_op_identity' \<Rightarrow>
             create_multiaxis_reducer rt (op_scalar_op op) scalar_op_identity' axes ndim
               out_dtype False)"

definition numba_funcify_Sum ::
  "'a::ring_1 runtime \<Rightarrow> 'a careduce_op \<Rightarrow> nat \<Rightarrow> dtype \<Rightarrow> error + 'a kernel" where
  "numba_funcify_Sum rt op ndim_input out_dtype =
     (let axes = (case op_axis op of None \<Rightarrow> map int [0..<ndim_input] | Some a \<Rightarrow> a);
          np_acc_dtype = resolve_acc_dtype (op_acc_dtype op) out_dtype
      in if ndim_input = length axes then
           Inr (\<lambda>array. Inr (Array (NDArray []
                  [astype rt out_dtype (astype rt np_acc_dtype (sum_list (data array)))])))
         else if length axes = 0 then
           Inr (\<lambda>array. Inr (Array (NDArray (shape array) (map (astype rt out_dtype) (data array)))))
         else numba_funcify_CAReduce rt op ndim_input out_dtype)"

text \<open>The \<^verbatim>\<open>Sum\<close> operator over the given axes: its scalar operator is \<open>Add\<close>, with identity 0.\<close>

definition sum_op :: "int list option \<Rightarrow> int careduce_op" where
  "sum_op axes = \<lparr>op_scalar_op = Add, op_identity = Finite 0, op_axis = axes, op_acc_dtype = None\<rparr>"

text \<open>The matrix \<open>[[1,2,3],[4,5,6]]\<close> of the specification's scenarios.\<close>

definition example_matrix :: "int ndarray" where
  "example_matrix = NDArray [2, 3] [1, 2, 3, 4, 5, 6]"

text \<open>
  The maximum reduction over the given axes: its scalar operator is \<open>ScalarMaximum\<close>, with
  identity minus infinity; it has no \<^verbatim>\<open>acc_dtype\<close>, so it accumulates in the output dtype.
\<close>

definition max_op :: "int list option \<Rightarrow> int careduce_op" where
  "max_op axes =
     \<lparr>op_scalar_op = ScalarMaximum, op_identity = NegInf, op_axis = axes, op_acc_dtype = None\<rparr>"

definition int8 :: dtype where
  "int8 = DType SignedInt 8"

definition uint8 :: dtype where
  "uint8 = DType UnsignedInt 8"


section \<open>Elementwise kernels (create_vectorize_func, numba_funcify_Elemwise)\<close>

text \<open>
  Of a graph node the builders read, for every input and output, the broadcast pattern and
  the dtype of its tensor type.
\<close>

record tensor_type =
  broadcastable :: "bool list"
  type_dtype :: dtype

record apply_node =
  inputs :: "tensor_type list"
  outputs :: "tensor_type list"

text \<open>
  The scalar function handed to \<^verbatim>\<open>create_vectorize_func\<close> is a plain Python function or a
  Numba dispatcher, which carries the Python function it was compiled from as
  \<^verbatim>\<open>py_func\<close>; \<open>py_func_of\<close> is \<^verbatim>\<open>getattr(scalar_op_fn, "py_func", scalar_op_fn)\<close>.
\<close>

datatype 'f callable = PyFunction 'f | Dispatcher 'f

fun py_func_of :: "'f callable \<Rightarrow> 'f callable" where
  "py_func_of (Dispatcher f) = PyFunction f"
| "py_func_of (PyFunction f) = PyFunction f"

text \<open>
  What \<^verbatim>\<open>create_vectorize_func\<close> takes from outside this file:
  \<^verbatim>\<open>create_numba_signature(node, force_scalar=True)\<close>; the vectorizer, that is
  \<^verbatim>\<open>numba_vectorize(signature, identity=..., target=..., fastmath=...)\<close> applied to the
  scalar function; the node tag's \<^verbatim>\<open>numba__vectorize_target\<close> (when set) and the two
  configuration values. Either call may fail.
\<close>

record ('s, 'i, 'f, 'v) vectorize_env =
  create_numba_signature :: "apply_node \<Rightarrow> error + 's"
  numba_vectorize :: "'s list \<Rightarrow> 'i option \<Rightarrow> string \<Rightarrow> bool \<Rightarrow> 'f callable \<Rightarrow> error + 'v"
  tag_vectorize_target :: "string option"
  config_vectorize_target :: string
  config_fastmath :: bool

record ('f, 'v) vectorized =
  elemwise_fn :: 'v
  py_scalar_func :: "'f callable"

definition create_vectorize_func ::
  "('s, 'i, 'f, 'v) vectorize_env \<Rightarrow> 'f callable \<Rightarrow> apply_node \<Rightarrow> bool \<Rightarrow> 'i option
     \<Rightarrow> error + ('f, 'v) vectorized" where
  "create_vectorize_func env scalar_op_fn node use_signature ident =
     (if length (outputs node) > 1 then Inl NotImplementedError
      else
        case (if use_signature
              then (case create_numba_signature env node of Inl e \<Rightarrow> Inl e | Inr sg \<Rightarrow> Inr [sg])
              else Inr []) of
          Inl e \<Rightarrow> Inl e
        | Inr sig \<Rightarrow>
            let target = (case tag_vectorize_target env of
                            Some t \<Rightarrow> if t = [] then config_vectorize_target env else t
                          | None \<Rightarrow> config_vectorize_target env)
            in case numba_vectorize env sig ident target (config_fastmath env) scalar_op_fn of
                 Inl e \<Rightarrow> Inl e
               | Inr vectorized_fn \<Rightarrow>
                   Inr \<lparr>elemwise_fn = vectorized_fn,
                        py_scalar_func = py_func_of scalar_op_fn\<rparr>)"

text \<open>
  \<^verbatim>\<open>np.broadcast_arrays\<close>: the common shape of shapes aligned at their last axis, where a
  length 1 stretches to the other length; anything else that differs is a \<open>ValueError\<close>.
  Both functions work on reversed shapes.
\<close>

fun broadcast_pair :: "nat list \<Rightarrow> nat list \<Rightarrow> error + nat list" where
  "broadcast_pair [] ys = Inr ys"
| "broadcast_pair xs [] = Inr xs"
| "broadcast_pair (x # xs) (y # ys) =
     (case broadcast_pair xs ys of
        Inl e \<Rightarrow> Inl e
      | Inr zs \<Rightarrow> if x = y \<or> y = 1 then Inr (x # zs)
                 else if x = 1 then Inr (y # zs)
                 else Inl ValueError)"

fun broadcast_rev_shapes :: "nat list list \<Rightarrow> error + nat list" where
  "broadcast_rev_shapes [] = Inr []"
| "broadcast_rev_shapes (s # ss) =
     (case broadcast_rev_shapes ss of Inl e \<Rightarrow> Inl e | Inr t \<Rightarrow> broadcast_pair s t)"

definition broadcast_shape :: "nat list list \<Rightarrow> error + nat list" where
  "broadcast_shape shapes = map_sum id rev (broadcast_rev_shapes (map rev shapes))"

text \<open>
  The element of a broadcast input at the index \<open>j\<close> of the common shape \<open>bshape\<close>: the
  input's axes are the last axes of the common shape, and along an axis where the input
  has length 1 its only element is read.
\<close>

definition broadcast_item :: "nat list \<Rightarrow> 'a ndarray \<Rightarrow> nat list \<Rightarrow> 'a" where
  "broadcast_item bshape x j =
     getitem x (map2 (\<lambda>n i. if n = 1 then 0 else i) (shape x)
                  (drop (length bshape - length (shape x)) j))"

text \<open>
  \<^verbatim>\<open>vals = [input[idx] for input in inputs_bc]\<close> for an index \<open>idx\<close> of \<open>inputs[0].shape\<close>,
  which has \<open>r0\<close> axes: \<open>idx\<close> addresses the first \<open>r0\<close> axes of the broadcast arrays, and
  an index outside them is an \<open>IndexError\<close>. When the first input has as many axes as the
  common shape the values are scalars. When it has fewer they are sub-arrays over the
  remaining axes; the scalar function maps them element by element, and storing its result
  into one slot of an output fails with \<open>ValueError\<close> unless it has exactly one element.
\<close>

definition values_at ::
  "nat list \<Rightarrow> bool \<Rightarrow> 'a ndarray list \<Rightarrow> nat list \<Rightarrow> error + 'a list" where
  "values_at bshape stores ins idx =
     (let r0 = length idx in
      if \<not> list_all2 (\<lambda>i n. i < n) idx (take r0 bshape) then Inl IndexError
      else if stores \<and> prod_list (drop r0 bshape) \<noteq> 1 then Inl ValueError
      else Inr (map (\<lambda>x. broadcast_item bshape x (idx @ replicate (length bshape - r0) 0)) ins))"

text \<open>The check loop of the reference implementation, against \<open>shape = inputs[0].shape\<close>.\<close>

definition broadcast_not_allowed :: "nat list \<Rightarrow> 'a ndarray list \<Rightarrow> bool list list \<Rightarrow> bool" where
  "broadcast_not_allowed shp ins input_bc_patterns =
     list_ex (\<lambda>(input, bc).
        list_ex (\<lambda>(length', allow_bc, iter_length).
                   length' = 1 \<and> shp \<noteq> [] \<and> iter_length \<noteq> 1 \<and> \<not> allow_bc)
                (zip (shape input) (zip bc shp)))
       (zip ins input_bc_patterns)"

text \<open>
  \<^verbatim>\<open>output.sum(axes, keepdims=True)\<close> for \<^verbatim>\<open>axes = tuple(np.nonzero(bc)[0])\<close>, the positions
  flagged in \<open>bc\<close>: a flagged position that is not an axis of the array is an \<open>AxisError\<close>;
  otherwise each flagged axis is collapsed to length 1, summing the elements that agree
  on the other axes.
\<close>

definition sum_keepdims :: "'a::monoid_add ndarray \<Rightarrow> bool list \<Rightarrow> error + 'a ndarray" where
  "sum_keepdims x bc =
     (let axes = filter (\<lambda>d. bc ! d) [0..<length bc];
          res_shape = map (\<lambda>(d, n). if d \<in> set axes then 1 else n) (enumerate 0 (shape x))
      in if list_ex (\<lambda>d. length (shape x) \<le> d) axes then Inl AxisError
         else Inr (NDArray res_shape
                (map (\<lambda>j. sum_list (map (getitem x)
                        (filter (\<lambda>idx. list_all (\<lambda>(d, i, i'). d \<in> set axes \<or> i = i')
                                          (enumerate 0 (zip idx j)))
                                (ndindex (shape x)))))
                     (ndindex res_shape))))"

text \<open>
  The reference implementation \<^verbatim>\<open>elemwise(*inputs)\<close>. \<open>scalar_op_fn\<close> takes the list of
  input values and returns the tuple of output values (a single value as a one-element
  tuple); an output for which it returns no value keeps the unspecified contents of
  \<^verbatim>\<open>np.empty\<close>. The result is the tuple of outputs (of length 1 for the single-output
  return).
\<close>

definition elemwise ::
  "'a::monoid_add runtime \<Rightarrow> ('a list \<Rightarrow> 'a list) \<Rightarrow> apply_node \<Rightarrow> 'a ndarray list
     \<Rightarrow> error + 'a ndarray list" where
  "elemwise rt scalar_op_fn node ins =
     (case broadcast_shape (map shape ins) of
        Inl e \<Rightarrow> Inl e
      | Inr bshape \<Rightarrow>
         (case ins of
            [] \<Rightarrow> Inl IndexError
          | first # _ \<Rightarrow>
             let shp = shape first in
             if broadcast_not_allowed shp ins (map broadcastable (inputs node)) then Inl ValueError
             else
               (case map_result (values_at bshape (outputs node \<noteq> []) ins) (ndindex shp) of
                  Inl e \<Rightarrow> Inl e
                | Inr vals \<Rightarrow>
                    let outs = map scalar_op_fn vals;
                        outs_arrays =
                          map (\<lambda>(k, out). NDArray shp
                                  (map (\<lambda>vs. astype rt (type_dtype out) (vs ! k)) outs))
                              (zip [0..<length (outputs node)] (outputs node))
                    in map_result (\<lambda>(output, bc). sum_keepdims output bc)
                         (zip outs_arrays (map broadcastable (outputs node))))))"

text \<open>
  The Elemwise operator's fields read by the builder, and what the builder takes from
  outside this file: whether the scalar operator is a \<^verbatim>\<open>Composite\<close>, the construction of
  the scalar node from the input dtypes, \<^verbatim>\<open>numba_funcify\<close> of the scalar operator and
  \<^verbatim>\<open>store_core_outputs\<close>. Each of the last three may fail. (\<^verbatim>\<open>encode_literals\<close> only encodes
  the constants and is left out.)
\<close>

record 'o elemwise_op =
  el_scalar_op :: 'o
  inplace_pattern :: "(nat \<times> nat) list"

record ('o, 'n, 'a, 'c) elemwise_env =
  is_composite :: "'o \<Rightarrow> bool"
  make_scalar_node :: "'o \<Rightarrow> dtype list \<Rightarrow> error + 'n"
  numba_funcify :: "'o \<Rightarrow> 'n option \<Rightarrow> error + ('a list \<Rightarrow> 'a list)"
  store_core_outputs :: "('a list \<Rightarrow> 'a list) \<Rightarrow> nat \<Rightarrow> nat \<Rightarrow> error + 'c"

text \<open>
  The returned function is the reference implementation when called from Python; called
  from compiled code it is \<^verbatim>\<open>elemwise_wrapper\<close>, the batched primitive \<^verbatim>\<open>_vectorized\<close> applied to
  the constants recorded in \<open>vectorized_call\<close> and to the inputs.
\<close>

record 'c vectorized_call =
  core_op_fn :: 'c
  input_bc_patterns :: "bool list list"
  output_bc_patterns :: "bool list list"
  output_dtypes :: "dtype list"
  call_inplace_pattern :: "(nat \<times> nat) list"
  core_output_shapes :: "nat list list"

record ('a, 'c) elemwise_kernel =
  reference :: "'a ndarray list \<Rightarrow> error + 'a ndarray list"
  elemwise_wrapper :: "'c vectorized_call"

definition numba_funcify_Elemwise ::
  "'a::monoid_add runtime \<Rightarrow> ('o, 'n, 'a, 'c) elemwise_env \<Rightarrow> 'o elemwise_op \<Rightarrow> apply_node
     \<Rightarrow> error + ('a, 'c) elemwise_kernel" where
  "numba_funcify_Elemwise rt env op node =
     (case (if \<not> is_composite env (el_scalar_op op)
            then (case make_scalar_node env (el_scalar_op op) (map type_dtype (inputs node)) of
                    Inl e \<Rightarrow> Inl e | Inr n \<Rightarrow> Inr (Some n))
            else Inr None) of
        Inl e \<Rightarrow> Inl e
      | Inr scalar_node \<Rightarrow>
         (case numba_funcify env (el_scalar_op op) scalar_node of
            Inl e \<Rightarrow> Inl e
          | Inr scalar_op_fn \<Rightarrow>
             let nin = length (inputs node);
                 nout = length (outputs node)
             in (case store_core_outputs env scalar_op_fn nin nout of
                   Inl e \<Rightarrow> Inl e
                 | Inr core \<Rightarrow>
                     Inr \<lparr>reference = elemwise rt scalar_op_fn node,
                          elemwise_wrapper =
                            \<lparr>core_op_fn = core,
                             input_bc_patterns = map broadcastable (inputs node),
                             output_bc_patterns = map broadcastable (outputs node),
                             output_dtypes = map type_dtype (outputs node),
                             call_inplace_pattern = inplace_pattern op,
                             core_output_shapes = replicate nout []\<rparr>\<rparr>)))"

text \<open>Nodes and inputs of the scenarios: elementwise addition of 64-bit integer matrices.\<close>

definition matrix_type :: tensor_type where
  "matrix_type = \<lparr>broadcastable = [False, False], type_dtype = int64\<rparr>"

definition add_node :: apply_node where
  "add_node = \<lparr>inputs = [matrix_type, matrix_type], outputs = [matrix_type]\<rparr>"

definition add_fn :: "int list \<Rightarrow> int list" where
  "add_fn vals = [sum_list vals]"

definition column_3x1 :: "int ndarray" where
  "column_3x1 = NDArray [3, 1] [10, 20, 30]"

definition matrix_3x4 :: "int ndarray" where
  "matrix_3x4 = NDArray [3, 4] [1, 2, 3, 4, 5, 6, 7, 8, 9, 10, 11, 12]"

text \<open>A node with two outputs: sum and product of its two inputs.\<close>

definition two_output_node :: apply_node where
  "two_output_node = \<lparr>inputs = [matrix_type, matrix_type], outputs = [matrix_type, matrix_type]\<rparr>"

definition sum_and_product :: "int list \<Rightarrow> int list" where
  "sum_and_product vals = [sum_list vals, prod_list vals]"

text \<open>
  Collaborators for the scenarios. The scalar operator (named by a string) is a
  \<^verbatim>\<open>Composite\<close> that \<^verbatim>\<open>numba_funcify\<close> translates to the given function, and the result of
  \<^verbatim>\<open>store_core_outputs\<close> is represented by its arguments. The vectorizer's result is
  represented by the signature list and the scalar function it was given.
\<close>

definition scenario_env ::
  "(int list \<Rightarrow> int list) \<Rightarrow> (string, unit, int, (int list \<Rightarrow> int list) \<times> nat \<times> nat) elemwise_env" where
  "scenario_env fn =
     \<lparr>is_composite = (\<lambda>scalar_op. True),
      make_scalar_node = (\<lambda>scalar_op dtypes. Inr ()),
      numba_funcify = (\<lambda>scalar_op scalar_node. Inr fn),
      store_core_outputs = (\<lambda>f nin nout. Inr (f, nin, nout))\<rparr>"

definition scenario_op :: "string elemwise_op" where
  "scenario_op = \<lparr>el_scalar_op = ''Composite'', inplace_pattern = []\<rparr>"

definition scenario_vectorize_env ::
  "(unit, int, int list \<Rightarrow> int list, unit list \<times> (int list \<Rightarrow> int list) callable) vectorize_env" where
  "scenario_vectorize_env =
     \<lparr>create_numba_signature = (\<lambda>node. Inr ()),
      numba_vectorize = (\<lambda>sig ident target fastmath f. Inr (sig, f)),
      tag_vectorize_target = None,
      config_vectorize_target = ''cpu'',
      config_fastmath = True\<rparr>"


section \<open>DimShuffle kernel (numba_funcify_DimShuffle)\<close>

text \<open>
  The operator's fields as the builder reads them: \<open>shuffle\<close> (the input axes kept, in
  output order), \<open>transposition\<close> (\<open>shuffle\<close> followed by the dropped axes), \<open>augment\<close> (the
  output positions of the inserted length-1 axes) and \<open>inplace\<close>. The node contributes the
  output's static shape, each length known or \<open>None\<close>.
\<close>

record dimshuffle_op =
  shuffle :: "nat list"
  transposition :: "nat list"
  augment :: "nat list"
  inplace :: bool

definition no_transpose :: "dimshuffle_op \<Rightarrow> bool" where
  "no_transpose op = list_all (\<lambda>(i, j). i = j) (enumerate 0 (transposition op))"

definition dimshuffle_transpose :: "dimshuffle_op \<Rightarrow> 'a ndarray \<Rightarrow> error + 'a ndarray" where
  "dimshuffle_transpose op =
     (if no_transpose op then (\<lambda>x. Inr x)
      else (\<lambda>x. np_transpose x (map int (transposition op))))"

text \<open>
  The loop of the dynamic \<^verbatim>\<open>find_shape\<close>: \<open>todo\<close> is the rest of \<open>range(ndim_new_shape)\<close>,
  \<open>shp\<close> the shape tuple built so far and \<open>j\<close> the next position of \<open>array_shape\<close>.
\<close>

fun find_shape_loop :: "nat list \<Rightarrow> nat list \<Rightarrow> nat list \<Rightarrow> nat list \<Rightarrow> nat \<Rightarrow> error + nat list" where
  "find_shape_loop aug array_shape [] shp j = Inr shp"
| "find_shape_loop aug array_shape (i # todo) shp j =
     (if i \<notin> set aug then
        (if j < length array_shape
         then find_shape_loop aug array_shape todo (shp[i := array_shape ! j]) (j + 1)
         else Inl IndexError)
      else find_shape_loop aug array_shape todo shp j)"

definition find_shape :: "dimshuffle_op \<Rightarrow> nat option list \<Rightarrow> nat list \<Rightarrow> error + nat list" where
  "find_shape op out_static_shape array_shape =
     (let ndim_new_shape = length (shuffle op) + length (augment op);
          shape_template = replicate ndim_new_shape 1
      in if length (shuffle op) > 0 then
           (if list_all (\<lambda>l. l \<noteq> None) out_static_shape then Inr (map the out_static_shape)
            else find_shape_loop (augment op) array_shape [0..<ndim_new_shape] shape_template 0)
         else Inr shape_template)"

definition dimshuffle_inner ::
  "dimshuffle_op \<Rightarrow> nat option list \<Rightarrow> 'a ndarray \<Rightarrow> error + 'a ndarray" where
  "dimshuffle_inner op out_static_shape x =
     (if length (shuffle op) + length (augment op) > 0 then
        (case dimshuffle_transpose op x of
           Inl e \<Rightarrow> Inl e
         | Inr x' \<Rightarrow>
             let shuffle_shape = take (length (shuffle op)) (shape x') in
             (case find_shape op out_static_shape shuffle_shape of
                Inl e \<Rightarrow> Inl e
              | Inr new_shape \<Rightarrow>
                  (case np_reshape x' new_shape of
                     Inl e \<Rightarrow> Inl e
                   | Inr res_reshape \<Rightarrow> if \<not> inplace op then Inr res_reshape else Inr res_reshape)))
      else np_reshape x [])"

definition numba_funcify_DimShuffle ::
  "dimshuffle_op \<Rightarrow> nat option list \<Rightarrow> 'a ndarray \<Rightarrow> error + 'a ndarray" where
  "numba_funcify_DimShuffle op out_static_shape x = dimshuffle_inner op out_static_shape x"

text \<open>The DimShuffle that swaps the two axes of a matrix.\<close>

definition swap_axes_op :: dimshuffle_op where
  "swap_axes_op = \<lparr>shuffle = [1, 0], transposition = [1, 0], augment = [], inplace = False\<rparr>"


section \<open>Axis-apply and Argmax kernels (create_axis_apply_fn, numba_funcify_Argmax)\<close>

text \<open>
  \<^verbatim>\<open>np.argmax\<close> of a one-dimensional array: the index of the first occurrence of the
  maximum; NumPy raises \<open>ValueError\<close> on an empty sequence. \<open>argmax_scan best bi i vs\<close>
  continues a left-to-right scan at position \<open>i\<close> with the best value and its index so far.
\<close>

fun argmax_scan :: "'a::linorder \<Rightarrow> nat \<Rightarrow> nat \<Rightarrow> 'a list \<Rightarrow> nat" where
  "argmax_scan best bi i [] = bi"
| "argmax_scan best bi i (v # vs) =
     (if best < v then argmax_scan v i (Suc i) vs else argmax_scan best bi (Suc i) vs)"

definition np_argmax :: "'a::linorder list \<Rightarrow> error + nat" where
  "np_argmax vs = (case vs of [] \<Rightarrow> Inl ValueError | v # rest \<Rightarrow> Inr (argmax_scan v 0 1 rest))"

text \<open>
  \<^verbatim>\<open>create_axis_apply_fn(fn, axis, ndim, dtype)\<close>: the axis is moved last and \<open>fn\<close> is applied
  to the one-dimensional slice \<open>x_reaxis[m]\<close> at every index \<open>m\<close> of the other axes; each value
  is stored into a result array of the given dtype. \<open>conv dtype\<close> is the conversion made
  by that store.
\<close>

definition last_axis_slice :: "'a ndarray \<Rightarrow> nat list \<Rightarrow> 'a list" where
  "last_axis_slice x m = map (\<lambda>i. getitem x (m @ [i])) [0..<last (shape x)]"

definition axis_apply_fn ::
  "('a list \<Rightarrow> error + 'b) \<Rightarrow> ('b \<Rightarrow> 'c) \<Rightarrow> nat list \<Rightarrow> 'a ndarray \<Rightarrow> error + 'c ndarray" where
  "axis_apply_fn fn store reaxis_first x =
     (case np_transpose x (map int reaxis_first) of
        Inl e \<Rightarrow> Inl e
      | Inr x_reaxis \<Rightarrow>
          let res_shape = butlast (shape x_reaxis) in
          (case map_result (\<lambda>m. map_sum id store (fn (last_axis_slice x_reaxis m)))
                  (ndindex res_shape) of
             Inl e \<Rightarrow> Inl e
           | Inr res \<Rightarrow> Inr (NDArray res_shape res)))"

definition create_axis_apply_fn ::
  "(dtype \<Rightarrow> 'b \<Rightarrow> 'c) \<Rightarrow> ('a list \<Rightarrow> error + 'b) \<Rightarrow> int \<Rightarrow> int \<Rightarrow> dtype
     \<Rightarrow> error + ('a ndarray \<Rightarrow> error + 'c ndarray)" where
  "create_axis_apply_fn conv fn axis ndim dt =
     (case normalize_axis_index axis (nat ndim) of
        Inl e \<Rightarrow> Inl e
      | Inr axis' \<Rightarrow>
          let reaxis_first = filter (\<lambda>i. i \<noteq> axis') [0..<nat ndim] @ [axis']
          in Inr (axis_apply_fn fn (conv dt) reaxis_first))"

text \<open>An index stored into an integer array of the given dtype.\<close>

definition index_as :: "dtype \<Rightarrow> nat \<Rightarrow> int" where
  "index_as dt k = int_astype dt (int k)"

definition keep_axes_of :: "int list \<Rightarrow> nat \<Rightarrow> int list" where
  "keep_axes_of axes x_ndim = filter (\<lambda>i. i \<notin> set axes) (map int [0..<x_ndim])"

definition numba_funcify_Argmax ::
  "int list \<Rightarrow> nat \<Rightarrow> error + ('a::linorder ndarray \<Rightarrow> error + int pyvalue)" where
  "numba_funcify_Argmax axis x_ndim =
     (if x_ndim = 0 then Inr (\<lambda>x. Inr (Scalar 0))
      else
        let axes = axis;
            keep_axes = keep_axes_of axes x_ndim;
            reduced_x_ndim = int x_ndim - int (length axes) + 1
        in case create_axis_apply_fn index_as np_argmax (reduced_x_ndim - 1) reduced_x_ndim int64 of
             Inl e \<Rightarrow> Inl e
           | Inr argmax_axis \<Rightarrow>
               Inr (\<lambda>x.
                 case np_transpose x (keep_axes @ axes) of
                   Inl e \<Rightarrow> Inl e
                 | Inr transposed_x \<Rightarrow>
                     let kept_shape = take (length keep_axes) (shape transposed_x);
                         reduced_shape = drop (length keep_axes) (shape transposed_x);
                         reduced_size = prod_list reduced_shape;
                         new_shape = kept_shape @ [reduced_size]
                     in case np_reshape transposed_x new_shape of
                          Inl e \<Rightarrow> Inl e
                        | Inr reshaped_x \<Rightarrow> map_sum id Array (argmax_axis reshaped_x)))"

text \<open>
  The block of the reduced axes at the kept coordinate \<open>m\<close>: the elements \<open>t[m, q]\<close> of the
  transposed array for every index \<open>q\<close> of the reduced axes, in C order (\<open>nk\<close> is the number
  of kept axes).
\<close>

definition reduced_block :: "'a ndarray \<Rightarrow> nat \<Rightarrow> nat list \<Rightarrow> 'a list" where
  "reduced_block t nk m = map (\<lambda>q. getitem t (m @ q)) (ndindex (drop nk (shape t)))"

text \<open>A \<open>(2,2,2)\<close> array on which the joint argmax differs from per-axis argmaxes.\<close>

definition example_cube :: "int ndarray" where
  "example_cube = NDArray [2, 2, 2] [1, 9, 3, 4, 5, 6, 8, 7]"


section \<open>Properties of the in-place statements\<close>

lemma squeeze_append [simp]: "squeeze (s @ t) = squeeze s @ squeeze t"
  by (simp add: squeeze_def)

lemma squeeze_Cons: "squeeze (c # s) = (if c \<noteq> CHR '' '' \<and> c \<noteq> newline then c # squeeze s else squeeze s)"
  by (simp add: squeeze_def)

lemma squeeze_Nil [simp]: "squeeze [] = []"
  by (simp add: squeeze_def)

lemma in_place_matches_spec:
  "map_sum id squeeze (scalar_in_place_fn k idx res arr) =
   map_sum id squeeze (spec_in_place_statement k idx res arr)"
  by (cases k) (simp_all add: squeeze_Cons newline_def)

text \<open>
  Claim C3. For every operator kind the statement returned by \<open>scalar_in_place_fn\<close> is the
  one the specification lists, up to blanks and line breaks (and an unregistered kind fails
  in both). For \<open>Mean\<close> it is exactly \<^verbatim>\<open>res[idx] += (arr - res[idx]) / (i + 1)\<close>, whose
  divisor names the loop counter \<open>i\<close> whatever the three arguments are; for
  \<open>MulWithoutZeros\<close> it is the conditional assignment, whose value leaves the other operand
  unchanged when either side is zero.
\<close>

theorem scalar_in_place_fn_statements:
  "map_sum id squeeze (scalar_in_place_fn k idx res arr) =
     map_sum id squeeze (spec_in_place_statement k idx res arr) \<and>
   scalar_in_place_fn Mean idx res arr = spec_in_place_statement Mean idx res arr \<and>
   scalar_in_place_fn Mean ''idx'' ''res'' ''arr'' =
     Inr ''res[idx] += (arr - res[idx]) / (i + 1)'' \<and>
   scalar_in_place_fn MulWithoutZeros ''idx'' ''res'' ''arr'' =
     Inr ''res[idx] = arr if res[idx] == 0 else (res[idx] if arr == 0 else res[idx] * arr)'' \<and>
   mul_without_zeros_update r 0 = r \<and>
   mul_without_zeros_update 0 a = a \<and>
   mean_update 0 r a = a"
  by (simp add: in_place_matches_spec mul_without_zeros_update_def mean_update_def)


section \<open>Properties of the reduction identity\<close>

text \<open>
  For an accumulator dtype of kind \<^verbatim>\<open>'i'\<close> the guard fires: an identity of plus infinity
  becomes the dtype's maximum and one of minus infinity its minimum, while a finite
  identity is kept.
\<close>

lemma careduce_identity_signed:
  "kind acc = SignedInt \<Longrightarrow>
     careduce_identity acc PosInf = (Finite (iinfo_max acc) :: int identity) \<and>
     careduce_identity acc NegInf = (Finite (iinfo_min acc) :: int identity) \<and>
     careduce_identity acc (Finite v) = (Finite v :: int identity) \<and>
     iinfo_min acc \<le> iinfo_max acc"
  by (simp add: careduce_identity_def iinfo_max_def iinfo_min_def)


section \<open>Properties of the reducers\<close>

lemma registered_statement:
  "registered k \<Longrightarrow> \<exists>s. scalar_in_place_fn k idx res arr = Inr s"
  by (cases k) (simp_all add: registered_def)

lemma registered_case:
  "registered k \<Longrightarrow>
     (case scalar_in_place_fn k idx res arr of Inl e \<Rightarrow> Inl e | Inr u \<Rightarrow> Inr c) = Inr c"
  using registered_statement[of k idx res arr] by auto

lemma normalize_axis_index_nat:
  "a < n \<Longrightarrow> normalize_axis_index (int a) n = Inr a"
  by (simp add: normalize_axis_index_def)

lemma create_axis_reducer_registered:
  assumes "registered k" "a < n"
  shows "create_axis_reducer rt k ident (int a) n dt kd rs =
           Inr (if n > 1 then careduce_axis_nd rt k ident a n dt kd
                else careduce_axis_1d rt k ident a n dt kd rs)"
  unfolding create_axis_reducer_def normalize_axis_index_nat[OF assms(2)]
  by (simp add: registered_case[OF assms(1)])

lemma careduce_axis_nd_array:
  "careduce_axis_nd rt k ident a n dt kd x = Inr v \<Longrightarrow> \<exists>y. v = Array y"
  by (auto simp: careduce_axis_nd_def Let_def split: if_splits)

lemma careduce_axis_1d_array:
  "careduce_axis_1d rt k ident a n dt kd False x = Inr v \<Longrightarrow> \<exists>y. v = Array y"
  by (auto simp: careduce_axis_1d_def Let_def split: if_splits)

lemma build_reducers_fold_axes:
  assumes "registered k"
  shows "sorted_wrt (>) l \<Longrightarrow> \<forall>a\<in>set l. a < n \<Longrightarrow>
         \<exists>fns. build_reducers rt k ident l n dt = Inr fns \<and>
               (\<forall>x. run_chain fns x = fold_axes rt k ident dt l n x)"
proof (induction l arbitrary: n)
  case Nil
  then show ?case by simp
next
  case (Cons a l)
  from Cons.prems have an: "a < n" by simp
  have "\<forall>b\<in>set l. b < n - 1" using Cons.prems by fastforce
  moreover have "sorted_wrt (>) l" using Cons.prems by simp
  ultimately obtain fns where fns: "build_reducers rt k ident l (n - 1) dt = Inr fns"
    "\<forall>x. run_chain fns x = fold_axes rt k ident dt l (n - 1) x"
    using Cons.IH by blast
  obtain f where c: "create_axis_reducer rt k ident (int a) n dt False False = Inr f"
    using create_axis_reducer_registered[OF assms an, of rt ident dt False False] by blast
  have "build_reducers rt k ident (a # l) n dt = Inr (f # fns)"
    by (simp only: build_reducers.simps c fns(1) sum.case)
  moreover have "run_chain (f # fns) x = fold_axes rt k ident dt (a # l) n x" for x
  proof (cases "f x")
    case (Inl e)
    then show ?thesis by (simp only: run_chain.simps fold_axes.simps c sum.case)
  next
    case (Inr v)
    then show ?thesis
      by (cases v) (simp_all only: run_chain.simps fold_axes.simps c sum.case pyvalue.case fns(2))
  qed
  ultimately show ?case by blast
qed

lemma fold_axes_single:
  assumes "registered k" "a < n"
  shows "create_axis_reducer rt k ident (int a) n dt False False = Inr f \<Longrightarrow>
         f x = map_sum id Array (fold_axes rt k ident dt [a] n x)"
proof -
  assume f: "create_axis_reducer rt k ident (int a) n dt False False = Inr f"
  show ?thesis
  proof (cases "f x")
    case (Inl e)
    then show ?thesis by (simp add: f)
  next
    case (Inr v)
    have "\<exists>y. v = Array y"
      using f Inr create_axis_reducer_registered[OF assms, of rt ident dt False False]
        careduce_axis_nd_array[of rt k ident a n dt False x v]
        careduce_axis_1d_array[of rt k ident a n dt False x v]
      by (auto split: if_splits)
    then show ?thesis using Inr by (auto simp: f)
  qed
qed

lemma map_result_normalize:
  "map_result (\<lambda>ax. normalize_axis_index ax n) axes = Inr axs \<Longrightarrow>
     length axs = length axes \<and> (\<forall>a\<in>set axs. a < n)"
proof (induction axes arbitrary: axs)
  case Nil
  then show ?case by simp
next
  case (Cons a axes)
  then show ?case
    by (auto simp: normalize_axis_index_def split: sum.splits if_splits)
qed

lemma normalize_axis_tuple_props:
  "normalize_axis_tuple axes n = Inr axs \<Longrightarrow>
     length axs = length axes \<and> distinct axs \<and> (\<forall>a\<in>set axs. a < n)"
  using map_result_normalize[of n axes]
  by (auto simp: normalize_axis_tuple_def split: sum.splits if_splits)

lemma descending_sort:
  "distinct axs \<Longrightarrow> sorted_wrt (>) (rev (sort axs))"
proof -
  assume "distinct axs"
  then have "sorted_wrt (<) (sort axs)"
    by (simp add: strict_sorted_iff)
  then show ?thesis by (simp add: sorted_wrt_rev)
qed

lemma sort_all_axes:
  assumes "distinct axs" "set axs = {0..<R}"
  shows "sort axs = [0..<R]"
proof -
  have "sort axs = sorted_list_of_set (set axs)"
    using assms(1) by (simp add: sorted_list_of_set_sort_remdups distinct_remdups_id)
  then show ?thesis using assms(2) by simp
qed


lemma create_axis_reducer_normalized:
  assumes "normalize_axis_index a R = Inr a'"
  shows "create_axis_reducer rt k ident a R dt kd rs =
         create_axis_reducer rt k ident (int a') R dt kd rs"
proof -
  from assms have "a' < R"
    by (auto simp: normalize_axis_index_def split: if_splits)
  then have "normalize_axis_index (int a') R = Inr a'"
    by (rule normalize_axis_index_nat)
  then show ?thesis
    unfolding create_axis_reducer_def assms by simp
qed

lemma normalize_axis_tuple_single:
  "normalize_axis_tuple [a] R = Inr axes' \<Longrightarrow>
     \<exists>a'. axes' = [a'] \<and> normalize_axis_index a R = Inr a' \<and> a' < R"
  by (auto simp: normalize_axis_tuple_def normalize_axis_index_def split: sum.splits if_splits)

lemma multiaxis_general:
  assumes reg: "registered k"
    and norm: "normalize_axis_tuple axes R = Inr axes'"
    and len: "length axes \<noteq> 1"
  shows "\<exists>f. create_multiaxis_reducer rt k ident axes R dt False = Inr f \<and>
             (\<forall>x. f x = map_sum id Array (fold_axes rt k ident dt (rev (sort axes')) R x))"
proof -
  from normalize_axis_tuple_props[OF norm]
  have d: "distinct axes'" and r: "\<forall>a\<in>set axes'. a < R" by simp_all
  have "sorted_wrt (>) (rev (sort axes'))" using d by (rule descending_sort)
  moreover have "\<forall>a\<in>set (rev (sort axes')). a < R" using r by simp
  ultimately obtain fns where
    fns: "build_reducers rt k ident (rev (sort axes')) R dt = Inr fns"
    "\<forall>x. run_chain fns x = fold_axes rt k ident dt (rev (sort axes')) R x"
    using build_reducers_fold_axes[OF reg, of "rev (sort axes')" R rt ident dt] by blast
  have unfold: "create_multiaxis_reducer rt k ident axes R dt False =
      Inr (\<lambda>x. case run_chain fns x of Inl e \<Rightarrow> Inl e | Inr v \<Rightarrow> coerce_result False v)"
  proof (cases axes)
    case Nil
    then show ?thesis using norm fns(1)
      by (simp add: create_multiaxis_reducer_def Let_def)
  next
    case (Cons a t)
    with len obtain b u where "axes = a # b # u" by (cases t) auto
    then show ?thesis using norm fns(1)
      by (simp add: create_multiaxis_reducer_def Let_def)
  qed
  have "(case run_chain fns x of Inl e \<Rightarrow> Inl e | Inr v \<Rightarrow> coerce_result False v) =
        map_sum id Array (fold_axes rt k ident dt (rev (sort axes')) R x)" for x
    using fns(2) by (cases "run_chain fns x") (auto simp: coerce_result_def)
  with unfold show ?thesis by simp
qed

lemma multiaxis_single:
  assumes reg: "registered k"
    and norm: "normalize_axis_tuple [a] R = Inr axes'"
  shows "\<exists>f. create_multiaxis_reducer rt k ident [a] R dt False = Inr f \<and>
             (\<forall>x. f x = map_sum id Array (fold_axes rt k ident dt (rev (sort axes')) R x))"
proof -
  from normalize_axis_tuple_single[OF norm] obtain a' where
    a': "axes' = [a']" "normalize_axis_index a R = Inr a'" "a' < R" by blast
  have eq: "create_multiaxis_reducer rt k ident [a] R dt False =
            create_axis_reducer rt k ident (int a') R dt False False"
    using create_axis_reducer_normalized[OF a'(2)]
    by (simp add: create_multiaxis_reducer_def)
  obtain f where f: "create_axis_reducer rt k ident (int a') R dt False False = Inr f"
    using create_axis_reducer_registered[OF reg a'(3)] by blast
  have "f x = map_sum id Array (fold_axes rt k ident dt [a'] R x)" for x
    using fold_axes_single[OF reg a'(3) f] .
  then show ?thesis using eq f a'(1) by simp
qed

text \<open>
  Claim C1. For a registered operator kind and axes that normalise (in range, no repeats),
  the reducer is built, and on every input it folds the requested axes one at a time
  in strictly descending axis order, each step a single-axis reducer built for the rank
  left at that step. When the axes are all axes of a rank-\<open>R\<close> array, the order is
  \<open>R - 1, ..., 1, 0\<close>: one single-axis reduction per axis from the highest index down to
  the lowest. (An input whose rank is not \<open>R\<close> is rejected by the first step on both sides.)
\<close>

theorem create_multiaxis_reducer_descending:
  assumes "registered k" and "normalize_axis_tuple axes R = Inr axes'"
  shows "\<exists>f. create_multiaxis_reducer rt k ident axes R dt False = Inr f \<and>
             sorted_wrt (>) (rev (sort axes')) \<and>
             set (rev (sort axes')) = set axes' \<and>
             (\<forall>x. f x = map_sum id Array (fold_axes rt k ident dt (rev (sort axes')) R x)) \<and>
             (set axes' = {0..<R} \<longrightarrow> rev (sort axes') = rev [0..<R])"
proof -
  from normalize_axis_tuple_props[OF assms(2)] have d: "distinct axes'" by simp
  have s: "sorted_wrt (>) (rev (sort axes'))" using d by (rule descending_sort)
  have all: "set axes' = {0..<R} \<longrightarrow> rev (sort axes') = rev [0..<R]"
    using sort_all_axes[OF d] by simp
  have "\<exists>f. create_multiaxis_reducer rt k ident axes R dt False = Inr f \<and>
             (\<forall>x. f x = map_sum id Array (fold_axes rt k ident dt (rev (sort axes')) R x))"
  proof (cases "length axes = 1")
    case True
    then obtain a where "axes = [a]" by (cases axes) auto
    then show ?thesis using multiaxis_single[OF assms(1)] assms(2) by blast
  next
    case False
    then show ?thesis using multiaxis_general[OF assms] by blast
  qed
  with s all show ?thesis by auto
qed

theorem create_multiaxis_reducer_descending_witness:
  "registered Add \<and> normalize_axis_tuple [0, 1] 2 = Inr [0, 1] \<and> set [0, 1] = {0..<(2::nat)} \<and>
   (\<exists>f. create_multiaxis_reducer int_runtime Add (Finite 0) [0, 1] 2 int64 False = Inr f \<and>
        f (NDArray [2, 3] [1, 2, 3, 4, 5, 6]) = Inr (Array (NDArray [] [21])))"
proof -
  have r: "registered Add" by (simp add: registered_def)
  have n: "normalize_axis_tuple [0, 1] 2 = Inr [0, 1]"
    by (simp add: normalize_axis_tuple_def normalize_axis_index_def)
  have st: "set [0, 1] = {0..<(2::nat)}" by auto
  obtain f where f: "create_multiaxis_reducer int_runtime Add (Finite 0) [0, 1] 2 int64 False = Inr f"
    and o: "rev (sort [0, 1 :: nat]) = rev [0..<2]"
    and fx: "\<forall>x. f x = map_sum id Array
               (fold_axes int_runtime Add (Finite 0) int64 (rev (sort [0, 1])) 2 x)"
    using create_multiaxis_reducer_descending[OF r n, of int_runtime "Finite 0" int64] st by blast
  have "fold_axes int_runtime Add (Finite 0) int64 (rev (sort [0, 1])) 2
          (NDArray [2, 3] [1, 2, 3, 4, 5, 6]) = Inr (NDArray [] [21])"
    by code_simp
  with f fx r n st show ?thesis by simp
qed


lemma map_result_in_range:
  "\<forall>a\<in>set axes. - int R \<le> a \<and> a < int R \<Longrightarrow>
     map_result (\<lambda>ax. normalize_axis_index ax R) axes =
       Inr (map (\<lambda>a. nat (if a < 0 then a + int R else a)) axes)"
  by (induction axes) (simp_all add: normalize_axis_index_def)

lemma map_result_out_of_range:
  "\<exists>a\<in>set axes. a < - int R \<or> int R \<le> a \<Longrightarrow>
     map_result (\<lambda>ax. normalize_axis_index ax R) axes = Inl AxisError"
proof (induction axes)
  case Nil
  then show ?case by simp
next
  case (Cons a axes)
  show ?case
  proof (cases "a < - int R \<or> int R \<le> a")
    case True
    then show ?thesis by (auto simp: normalize_axis_index_def)
  next
    case False
    with Cons.prems have "\<exists>a\<in>set axes. a < - int R \<or> int R \<le> a" by auto
    then have "map_result (\<lambda>ax. normalize_axis_index ax R) axes = Inl AxisError"
      by (rule Cons.IH)
    then show ?thesis by (auto simp: normalize_axis_index_def split: sum.splits)
  qed
qed

lemma resolve_negative_idem:
  "- int R \<le> a \<and> a < int R \<Longrightarrow>
     normalize_axis_index (if a < 0 then a + int R else a) R = normalize_axis_index a R"
  by (auto simp: normalize_axis_index_def)

lemma map_result_cong:
  "(\<And>x. x \<in> set xs \<Longrightarrow> f (g x) = f x) \<Longrightarrow> map_result f (map g xs) = map_result f xs"
  by (induction xs) (auto split: sum.splits)

lemma multiaxis_many:
  "create_multiaxis_reducer rt k ident (a # b # v) R dt rs =
     (case normalize_axis_tuple (a # b # v) R of
        Inl e \<Rightarrow> Inl e
      | Inr axes' \<Rightarrow>
          (case build_reducers rt k ident (rev (sort axes')) R dt of
             Inl e \<Rightarrow> Inl e
           | Inr fns \<Rightarrow> Inr (\<lambda>x. case run_chain fns x of Inl e \<Rightarrow> Inl e
                                   | Inr v \<Rightarrow> coerce_result rs v)))"
  by (auto simp: create_multiaxis_reducer_def Let_def split: sum.splits)

lemma multiaxis_resolves_negative:
  assumes "\<forall>a\<in>set axes. - int R \<le> a \<and> a < int R"
  shows "create_multiaxis_reducer rt k ident axes R dt rs =
         create_multiaxis_reducer rt k ident (map (\<lambda>a. if a < 0 then a + int R else a) axes) R dt rs"
proof -
  let ?g = "\<lambda>a. if a < 0 then a + int R else a"
  have t: "normalize_axis_tuple (map ?g axes) R = normalize_axis_tuple axes R"
    unfolding normalize_axis_tuple_def
    using map_result_cong[of axes "\<lambda>ax. normalize_axis_index ax R" ?g]
      resolve_negative_idem[of R] assms by simp
  show ?thesis
  proof (cases axes)
    case Nil
    then show ?thesis by simp
  next
    case (Cons a u)
    show ?thesis
    proof (cases u)
      case Nil
      have "- int R \<le> a \<and> a < int R" using assms Cons by simp
      then obtain a' where a': "normalize_axis_index a R = Inr a'"
        by (auto simp: normalize_axis_index_def)
      then have "normalize_axis_index (?g a) R = Inr a'"
        using resolve_negative_idem[of R a] \<open>- int R \<le> a \<and> a < int R\<close> by simp
      then have "create_axis_reducer rt k ident (?g a) R dt False False =
                 create_axis_reducer rt k ident a R dt False False"
        using create_axis_reducer_normalized[OF a', of rt k ident dt False False]
          create_axis_reducer_normalized[of "?g a" R a' rt k ident dt False False] by simp
      then show ?thesis using Cons Nil by (simp add: create_multiaxis_reducer_def)
    next
      case (Cons b v)
      with \<open>axes = a # u\<close> have sh: "axes = a # b # v" by simp
      from t have t': "normalize_axis_tuple (?g a # ?g b # map ?g v) R =
                       normalize_axis_tuple (a # b # v) R"
        unfolding sh by simp
      show ?thesis unfolding sh by (simp only: list.map multiaxis_many t')
    qed
  qed
qed

lemma multiaxis_out_of_range:
  assumes "\<exists>a\<in>set axes. a < - int R \<or> int R \<le> a"
  shows "create_multiaxis_reducer rt k ident axes R dt rs = Inl AxisError"
proof -
  have t: "normalize_axis_tuple axes R = Inl AxisError"
    using map_result_out_of_range[OF assms] by (simp add: normalize_axis_tuple_def)
  show ?thesis
  proof (cases axes)
    case Nil
    with assms show ?thesis by simp
  next
    case (Cons a u)
    show ?thesis
    proof (cases u)
      case Nil
      with Cons assms have "a < - int R \<or> int R \<le> a" by simp
      then have "normalize_axis_index a R = Inl AxisError"
        by (auto simp: normalize_axis_index_def)
      then show ?thesis using Cons Nil
        by (simp add: create_multiaxis_reducer_def create_axis_reducer_def)
    next
      case (Cons b v)
      with \<open>axes = a # u\<close> show ?thesis using t
        by (simp add: create_multiaxis_reducer_def)
    qed
  qed
qed

lemma multiaxis_repeated:
  assumes "length axes \<noteq> 1" "\<forall>a\<in>set axes. - int R \<le> a \<and> a < int R"
    and "\<not> distinct (map (\<lambda>a. nat (if a < 0 then a + int R else a)) axes)"
  shows "create_multiaxis_reducer rt k ident axes R dt rs = Inl ValueError"
proof -
  have t: "normalize_axis_tuple axes R = Inl ValueError"
    using map_result_in_range[OF assms(2)] assms(3) by (simp add: normalize_axis_tuple_def)
  from assms(1,3) obtain a b v where "axes = a # b # v"
    by (cases axes; cases "tl axes") auto
  then show ?thesis using t by (simp add: create_multiaxis_reducer_def)
qed

text \<open>
  Claim C9, as the code has it. Before any statement is generated the axes are normalised:
  negative axes are resolved against the rank (the builder's result is the one for the
  resolved axes); an axis out of range fails with NumPy's \<open>AxisError\<close>, a value error,
  whatever the operator kind; a repeated axis (among two or more given) fails with
  \<open>ValueError\<close>; and when exactly one axis is given the builder is the single-axis reducer
  for it.
\<close>

theorem create_multiaxis_reducer_normalization:
  "((\<forall>a\<in>set axes. - int R \<le> a \<and> a < int R) \<longrightarrow>
      create_multiaxis_reducer rt k ident axes R dt rs =
      create_multiaxis_reducer rt k ident (map (\<lambda>a. if a < 0 then a + int R else a) axes) R dt rs) \<and>
   ((\<exists>a\<in>set axes. a < - int R \<or> int R \<le> a) \<longrightarrow>
      create_multiaxis_reducer rt k ident axes R dt rs = Inl AxisError \<and> is_value_error AxisError) \<and>
   (length axes \<noteq> 1 \<and> (\<forall>a\<in>set axes. - int R \<le> a \<and> a < int R) \<and>
    \<not> distinct (map (\<lambda>a. nat (if a < 0 then a + int R else a)) axes) \<longrightarrow>
      create_multiaxis_reducer rt k ident axes R dt rs = Inl ValueError) \<and>
   create_multiaxis_reducer rt k ident [axis] R dt rs =
     create_axis_reducer rt k ident axis R dt False False"
proof (intro conjI impI)
  assume "\<forall>a\<in>set axes. - int R \<le> a \<and> a < int R"
  then show "create_multiaxis_reducer rt k ident axes R dt rs =
      create_multiaxis_reducer rt k ident (map (\<lambda>a. if a < 0 then a + int R else a) axes) R dt rs"
    by (rule multiaxis_resolves_negative)
next
  assume "\<exists>a\<in>set axes. a < - int R \<or> int R \<le> a"
  then show "create_multiaxis_reducer rt k ident axes R dt rs = Inl AxisError"
    by (rule multiaxis_out_of_range)
next
  show "is_value_error AxisError" by (simp add: is_value_error_def)
next
  assume "length axes \<noteq> 1 \<and> (\<forall>a\<in>set axes. - int R \<le> a \<and> a < int R) \<and>
    \<not> distinct (map (\<lambda>a. nat (if a < 0 then a + int R else a)) axes)"
  then show "create_multiaxis_reducer rt k ident axes R dt rs = Inl ValueError"
    using multiaxis_repeated by blast
next
  show "create_multiaxis_reducer rt k ident [axis] R dt rs =
     create_axis_reducer rt k ident axis R dt False False"
    by (simp add: create_multiaxis_reducer_def)
qed

theorem create_multiaxis_reducer_normalization_witness:
  "create_multiaxis_reducer int_runtime Add (Finite 0) [- 1, 0] 2 int64 False =
     create_multiaxis_reducer int_runtime Add (Finite 0) [1, 0] 2 int64 False \<and>
   create_multiaxis_reducer int_runtime (Unregistered ''Pow'') (Finite 0) [0, 5] 2 int64 False =
     Inl AxisError \<and>
   create_multiaxis_reducer int_runtime Add (Finite 0) [0, - 2] 2 int64 False = Inl ValueError"
proof -
  have "\<forall>a\<in>set [- 1, 0 :: int]. - int 2 \<le> a \<and> a < int 2" by simp
  then have a: "create_multiaxis_reducer int_runtime Add (Finite 0) [- 1, 0] 2 int64 False =
     create_multiaxis_reducer int_runtime Add (Finite 0) [1, 0] 2 int64 False"
    using create_multiaxis_reducer_normalization
      [of "[- 1, 0]" 2 int_runtime Add "Finite 0" int64 False] by simp
  have "\<exists>a\<in>set [0, 5 :: int]. a < - int 2 \<or> int 2 \<le> a" by simp
  then have b: "create_multiaxis_reducer int_runtime (Unregistered ''Pow'') (Finite 0) [0, 5] 2 int64 False =
     Inl AxisError"
    using create_multiaxis_reducer_normalization
      [of "[0, 5]" 2 int_runtime "Unregistered ''Pow''" "Finite 0" int64 False] by blast
  have "length [0, - 2 :: int] \<noteq> 1 \<and> (\<forall>a\<in>set [0, - 2 :: int]. - int 2 \<le> a \<and> a < int 2) \<and>
    \<not> distinct (map (\<lambda>a. nat (if a < 0 then a + int 2 else a)) [0, - 2])" by simp
  then have c: "create_multiaxis_reducer int_runtime Add (Finite 0) [0, - 2] 2 int64 False = Inl ValueError"
    using create_multiaxis_reducer_normalization
      [of "[0, - 2]" 2 int_runtime Add "Finite 0" int64 False] by blast
  from a b c show ?thesis by blast
qed

text \<open>
  Claim C9 as stated fails on a repeated axis: for axes \<open>(0, 0)\<close> at rank 2 the builder
  raises \<open>ValueError\<close>, where deduplication would leave the single axis 0, for which a
  reducer is built.
\<close>

theorem create_multiaxis_reducer_repeated_counterexample:
  "create_multiaxis_reducer int_runtime Add (Finite 0) [0, 0] 2 int64 False = Inl ValueError \<and>
   \<not> isl (create_multiaxis_reducer int_runtime Add (Finite 0) [0] 2 int64 False)"
  by (simp add: create_multiaxis_reducer_def normalize_axis_tuple_def normalize_axis_index_def
      create_axis_reducer_def)


section \<open>Properties of array indexing\<close>

lemma length_ndindex: "length (ndindex shp) = prod_list shp"
  by (induction shp) (simp_all add: length_concat comp_def sum_list_triv)

lemma concat_blocks:
  "concat (map (\<lambda>i. map (\<lambda>k. i * P + k) [0..<P]) [0..<n]) = [0..<n * P]"
proof (induction n)
  case 0
  then show ?case by simp
next
  case (Suc n)
  have m: "map (\<lambda>k. n * P + k) [0..<P] = [n * P..<n * P + P]"
    using map_add_upt[of "n * P" P] by (simp add: add.commute)
  have "[0..<n * P + P] = [0..<n * P] @ [n * P..<n * P + P]"
    by (rule upt_add_eq_append) simp
  then have e: "[0..<Suc n * P] = [0..<n * P] @ [n * P..<n * P + P]"
    by (simp add: add.commute)
  have "concat (map (\<lambda>i. map (\<lambda>k. i * P + k) [0..<P]) [0..<Suc n]) =
        concat (map (\<lambda>i. map (\<lambda>k. i * P + k) [0..<P]) [0..<n]) @ map (\<lambda>k. n * P + k) [0..<P]"
    by simp
  then show ?case by (simp only: Suc m e)
qed

lemma flat_index_ndindex: "map (flat_index shp) (ndindex shp) = [0..<prod_list shp]"
proof (induction shp)
  case Nil
  then show ?case by simp
next
  case (Cons n ns)
  have "map (flat_index (n # ns)) (map ((#) i) (ndindex ns)) =
        map (\<lambda>k. i * prod_list ns + k) [0..<prod_list ns]" for i
  proof -
    have "map (flat_index (n # ns)) (map ((#) i) (ndindex ns)) =
          map (\<lambda>k. i * prod_list ns + k) (map (flat_index ns) (ndindex ns))"
      by simp
    then show ?thesis by (simp only: Cons.IH)
  qed
  then have "map (flat_index (n # ns)) (ndindex (n # ns)) =
        concat (map (\<lambda>i. map (\<lambda>k. i * prod_list ns + k) [0..<prod_list ns]) [0..<n])"
    by (simp add: map_concat comp_def)
  then show ?case by (simp add: concat_blocks)
qed

lemma set_ndindex: "idx \<in> set (ndindex shp) \<longleftrightarrow> list_all2 (<) idx shp"
proof (induction shp arbitrary: idx)
  case Nil
  then show ?case by simp
next
  case (Cons n ns)
  have "idx \<in> set (ndindex (n # ns)) \<longleftrightarrow>
        (\<exists>i rest. idx = i # rest \<and> i < n \<and> rest \<in> set (ndindex ns))"
    by auto
  also have "\<dots> \<longleftrightarrow> (\<exists>i rest. idx = i # rest \<and> i < n \<and> list_all2 (<) rest ns)"
    by (simp only: Cons.IH)
  also have "\<dots> \<longleftrightarrow> list_all2 (<) idx (n # ns)"
    by (auto simp: list_all2_Cons2)
  finally show ?case .
qed

lemma ndindex_length: "idx \<in> set (ndindex shp) \<Longrightarrow> length idx = length shp"
  by (simp add: set_ndindex list_all2_lengthD)

lemma ndindex_nth_flat:
  assumes "idx \<in> set (ndindex shp)"
  shows "flat_index shp idx < prod_list shp \<and> ndindex shp ! flat_index shp idx = idx"
proof -
  from assms obtain p where p: "p < length (ndindex shp)" "ndindex shp ! p = idx"
    by (auto simp: in_set_conv_nth)
  have "map (flat_index shp) (ndindex shp) ! p = [0..<prod_list shp] ! p"
    by (simp only: flat_index_ndindex)
  then have "flat_index shp idx = p"
    using p by (simp add: length_ndindex)
  with p show ?thesis by (simp add: length_ndindex)
qed

lemma getitem_ndindex:
  assumes "wf_array x"
  shows "map (getitem x) (ndindex (shape x)) = data x"
proof -
  have "map (getitem x) (ndindex (shape x)) =
        map ((!) (data x)) (map (flat_index (shape x)) (ndindex (shape x)))"
    by (simp add: getitem_def comp_def)
  also have "\<dots> = map ((!) (data x)) [0..<length (data x)]"
    using assms by (simp only: flat_index_ndindex wf_array_def)
  also have "\<dots> = data x" by (rule map_nth)
  finally show ?thesis .
qed

lemma getitem_mapped:
  assumes "m \<in> set (ndindex shp)"
  shows "getitem (NDArray shp (map g (ndindex shp))) m = g m"
  using ndindex_nth_flat[OF assms] by (simp add: getitem_def length_ndindex)

lemma flat_index_append:
  "length s1 = length i1 \<Longrightarrow>
     flat_index (s1 @ s2) (i1 @ i2) = flat_index s1 i1 * prod_list s2 + flat_index s2 i2"
proof (induction s1 arbitrary: i1)
  case Nil
  then show ?case by simp
next
  case (Cons n ns)
  then obtain i rest where i1: "i1 = i # rest" "length ns = length rest"
    by (cases i1) auto
  show ?case using Cons.IH[OF i1(2)] by (simp add: i1 algebra_simps)
qed

lemma index_of_upt: "d < n \<Longrightarrow> index_of d [0..<n] = d"
proof -
  assume d: "d < n"
  have "[0..<n] = [0..<d] @ d # [Suc d..<n]"
    using d by (metis le_add_diff_inverse less_imp_le_nat upt_add_eq_append upt_conv_Cons zero_le
        add_diff_cancel_left' le_add1 less_add_same_cancel1 zero_less_diff)
  moreover have "takeWhile (\<lambda>b. b \<noteq> d) ([0..<d] @ d # [Suc d..<n]) =
                 [0..<d] @ takeWhile (\<lambda>b. b \<noteq> d) (d # [Suc d..<n])"
    by (rule takeWhile_append2) auto
  ultimately have "takeWhile (\<lambda>b. b \<noteq> d) [0..<n] = [0..<d]"
    by simp
  then show ?thesis by (simp add: index_of_def)
qed

lemma source_index_identity: "length j = n \<Longrightarrow> source_index [0..<n] j = j"
proof -
  assume l: "length j = n"
  have "map (\<lambda>d. j ! index_of d [0..<n]) [0..<n] = map (\<lambda>d. j ! d) [0..<n]"
    by (rule map_cong) (simp_all add: index_of_upt)
  also have "\<dots> = j" using l map_nth[of j] by simp
  finally show ?thesis by (simp add: source_index_def)
qed

lemma permute_axes_identity:
  assumes "wf_array x"
  shows "permute_axes x [0..<length (shape x)] = x"
proof -
  have s: "map (\<lambda>a. shape x ! a) [0..<length (shape x)] = shape x" by (rule map_nth)
  have "map (\<lambda>j. getitem x (source_index [0..<length (shape x)] j)) (ndindex (shape x)) =
        map (getitem x) (ndindex (shape x))"
    by (rule map_cong) (simp_all add: source_index_identity ndindex_length)
  then show ?thesis
    using getitem_ndindex[OF assms] by (simp add: permute_axes_def s)
qed

lemma normalize_axis_tuple_nats:
  assumes "distinct axs" "\<forall>a\<in>set axs. a < n"
  shows "normalize_axis_tuple (map int axs) n = Inr axs"
proof -
  have "map_result (\<lambda>ax. normalize_axis_index ax n) (map int axs) =
        Inr (map (\<lambda>a. nat (if a < 0 then a + int n else a)) (map int axs))"
    by (rule map_result_in_range) (use assms(2) in auto)
  moreover have "map (\<lambda>a. nat (if a < 0 then a + int n else a)) (map int axs) = axs"
    by (induction axs) simp_all
  ultimately show ?thesis using assms(1) by (simp add: normalize_axis_tuple_def)
qed

lemma np_transpose_identity:
  assumes "wf_array x"
  shows "np_transpose x (map int [0..<length (shape x)]) = Inr x"
  using normalize_axis_tuple_nats[of "[0..<length (shape x)]" "length (shape x)"]
    permute_axes_identity[OF assms]
  by (simp add: np_transpose_def)

lemma getitem_permute_axes:
  assumes "j \<in> set (ndindex (map (\<lambda>a. shape x ! a) perm))"
  shows "getitem (permute_axes x perm) j = getitem x (source_index perm j)"
  using getitem_mapped[OF assms, of "\<lambda>j. getitem x (source_index perm j)"]
  by (simp add: permute_axes_def Let_def)

lemma wf_permute_axes: "wf_array (permute_axes x perm)"
  by (simp add: wf_array_def permute_axes_def Let_def length_ndindex)


section \<open>Properties of the Sum kernel\<close>

lemma sum_all_axes:
  assumes "op_axis op = None \<or> (\<exists>axes. op_axis op = Some axes \<and> length axes = ndim)"
  shows "numba_funcify_Sum rt op ndim out = Inr (\<lambda>array. Inr (Array (NDArray []
           [astype rt out (astype rt (resolve_acc_dtype (op_acc_dtype op) out)
              (sum_list (data array)))])))"
  using assms by (auto simp: numba_funcify_Sum_def Let_def)

lemma sum_no_axes:
  assumes "op_axis op = Some []" "0 < ndim"
  shows "numba_funcify_Sum rt op ndim out =
           Inr (\<lambda>array. Inr (Array (NDArray (shape array) (map (astype rt out) (data array)))))"
  using assms by (simp add: numba_funcify_Sum_def Let_def)

lemma covering_axes_length:
  assumes "normalize_axis_tuple axes ndim = Inr axes'" "set axes' = {0..<ndim}"
  shows "length axes = ndim"
proof -
  from normalize_axis_tuple_props[OF assms(1)]
  have "length axes' = length axes" "distinct axes'" by simp_all
  then have "length axes = card (set axes')" by (simp add: distinct_card)
  then show ?thesis using assms(2) by simp
qed

lemma sum_example_axis1:
  "(case numba_funcify_Sum int_runtime (sum_op (Some [1])) 2 int64 of
      Inl e \<Rightarrow> Inl e | Inr f \<Rightarrow> f example_matrix) = Inr (Array (NDArray [2] [6, 15]))"
  by code_simp

lemma sum_example_axis0:
  "(case numba_funcify_Sum int_runtime (sum_op (Some [0])) 2 int64 of
      Inl e \<Rightarrow> Inl e | Inr f \<Rightarrow> f example_matrix) = Inr (Array (NDArray [3] [5, 7, 9]))"
  by code_simp

lemma sum_example_both:
  "(case numba_funcify_Sum int_runtime (sum_op (Some [0, 1])) 2 int64 of
      Inl e \<Rightarrow> Inl e | Inr f \<Rightarrow> f example_matrix) = Inr (Array (NDArray [] [21]))"
  by code_simp

text \<open>
  Claim C2. When the axes of the operator cover every axis of the input (or the operator
  reduces all axes, \<open>axis = None\<close>), the kernel is the whole-array sum converted to the
  accumulator dtype and then to the output dtype. When the axis tuple is empty and the
  input has axes, the kernel is the input converted element by element to the output
  dtype; for a rank-0 input the empty tuple covers every axis, the first path is taken
  and the result is the input's element converted to the accumulator and then the output
  dtype. On \<open>[[1,2,3],[4,5,6]]\<close> with 64-bit integers the sum over axis 1 is \<open>[6,15]\<close>, over
  axis 0 \<open>[5,7,9]\<close>, over both axes \<open>21\<close>.
\<close>

theorem numba_funcify_Sum_fast_paths:
  "((op_axis op = None \<or>
     (\<exists>axes axes'. op_axis op = Some axes \<and> normalize_axis_tuple axes ndim = Inr axes' \<and>
                   set axes' = {0..<ndim})) \<longrightarrow>
      (\<exists>f. numba_funcify_Sum rt op ndim out = Inr f \<and>
           (\<forall>x. f x = Inr (Array (NDArray []
                   [astype rt out (astype rt (resolve_acc_dtype (op_acc_dtype op) out)
                      (sum_list (data x)))]))))) \<and>
   (op_axis op = Some [] \<and> 0 < ndim \<longrightarrow>
      (\<exists>f. numba_funcify_Sum rt op ndim out = Inr f \<and>
           (\<forall>x. f x = Inr (Array (NDArray (shape x) (map (astype rt out) (data x))))))) \<and>
   (op_axis op = Some [] \<and> ndim = 0 \<longrightarrow>
      (\<exists>f. numba_funcify_Sum rt op ndim out = Inr f \<and>
           (\<forall>v. f (NDArray [] [v]) = Inr (Array (NDArray []
                   [astype rt out (astype rt (resolve_acc_dtype (op_acc_dtype op) out) v)]))))) \<and>
   (case numba_funcify_Sum int_runtime (sum_op (Some [1])) 2 int64 of
      Inl e \<Rightarrow> Inl e | Inr f \<Rightarrow> f example_matrix) = Inr (Array (NDArray [2] [6, 15])) \<and>
   (case numba_funcify_Sum int_runtime (sum_op (Some [0])) 2 int64 of
      Inl e \<Rightarrow> Inl e | Inr f \<Rightarrow> f example_matrix) = Inr (Array (NDArray [3] [5, 7, 9])) \<and>
   (case numba_funcify_Sum int_runtime (sum_op (Some [0, 1])) 2 int64 of
      Inl e \<Rightarrow> Inl e | Inr f \<Rightarrow> f example_matrix) = Inr (Array (NDArray [] [21]))"
proof (intro conjI impI)
  assume h: "op_axis op = None \<or>
     (\<exists>axes axes'. op_axis op = Some axes \<and> normalize_axis_tuple axes ndim = Inr axes' \<and>
                   set axes' = {0..<ndim})"
  then have "op_axis op = None \<or> (\<exists>axes. op_axis op = Some axes \<and> length axes = ndim)"
    using covering_axes_length by blast
  from sum_all_axes[OF this]
  show "\<exists>f. numba_funcify_Sum rt op ndim out = Inr f \<and>
           (\<forall>x. f x = Inr (Array (NDArray []
                   [astype rt out (astype rt (resolve_acc_dtype (op_acc_dtype op) out)
                      (sum_list (data x)))])))"
    by simp
next
  assume "op_axis op = Some [] \<and> 0 < ndim"
  then show "\<exists>f. numba_funcify_Sum rt op ndim out = Inr f \<and>
           (\<forall>x. f x = Inr (Array (NDArray (shape x) (map (astype rt out) (data x)))))"
    using sum_no_axes[of op ndim rt out] by simp
next
  assume "op_axis op = Some [] \<and> ndim = 0"
  then have "op_axis op = None \<or> (\<exists>axes. op_axis op = Some axes \<and> length axes = ndim)"
    by simp
  from sum_all_axes[OF this]
  show "\<exists>f. numba_funcify_Sum rt op ndim out = Inr f \<and>
           (\<forall>v. f (NDArray [] [v]) = Inr (Array (NDArray []
                   [astype rt out (astype rt (resolve_acc_dtype (op_acc_dtype op) out) v)])))"
    by simp
qed (rule sum_example_axis1 sum_example_axis0 sum_example_both)+

theorem numba_funcify_Sum_fast_paths_witness:
  "(\<exists>f. numba_funcify_Sum int_runtime (sum_op (Some [- 1, 0])) 2 int64 = Inr f \<and>
        f example_matrix = Inr (Array (NDArray [] [21]))) \<and>
   (\<exists>f. numba_funcify_Sum int_runtime (sum_op (Some [])) 2 int64 = Inr f \<and>
        f example_matrix = Inr (Array example_matrix)) \<and>
   (\<exists>f. numba_funcify_Sum int_runtime (sum_op (Some [])) 0 int64 = Inr f \<and>
        f (NDArray [] [7]) = Inr (Array (NDArray [] [7])))"
proof -
  have n: "normalize_axis_tuple [- 1, 0] 2 = Inr [1, 0]"
    by (simp add: normalize_axis_tuple_def normalize_axis_index_def)
  have st: "set [1, 0] = {0..<(2::nat)}" by auto
  have h1: "op_axis (sum_op (Some [- 1, 0])) = None \<or>
     (\<exists>axes axes'. op_axis (sum_op (Some [- 1, 0])) = Some axes \<and>
        normalize_axis_tuple axes 2 = Inr axes' \<and> set axes' = {0..<2})"
    using n st by (simp add: sum_op_def)
  have h2: "op_axis (sum_op (Some [])) = Some [] \<and> 0 < (2::nat)" by (simp add: sum_op_def)
  have h3: "op_axis (sum_op (Some [])) = Some [] \<and> (0::nat) = 0" by (simp add: sum_op_def)
  have v1: "int_astype int64 (int_astype (resolve_acc_dtype (op_acc_dtype (sum_op (Some [- 1, 0]))) int64)
              (sum_list (data example_matrix))) = 21"
    by (simp add: int_astype_def int64_def resolve_acc_dtype_def sum_op_def example_matrix_def)
  have v2: "map (int_astype int64) (data example_matrix) = data example_matrix"
    by (simp add: int_astype_def int64_def example_matrix_def)
  have v3: "int_astype int64 (int_astype (resolve_acc_dtype (op_acc_dtype (sum_op (Some []))) int64) 7) = 7"
    by (simp add: int_astype_def int64_def resolve_acc_dtype_def sum_op_def)
  have a: "\<exists>f. numba_funcify_Sum int_runtime (sum_op (Some [- 1, 0])) 2 int64 = Inr f \<and>
        f example_matrix = Inr (Array (NDArray [] [21]))"
    using numba_funcify_Sum_fast_paths[of "sum_op (Some [- 1, 0])" 2 int_runtime int64] h1 v1
    by (auto simp: int_runtime_def)
  have b: "\<exists>f. numba_funcify_Sum int_runtime (sum_op (Some [])) 2 int64 = Inr f \<and>
        f example_matrix = Inr (Array example_matrix)"
    using numba_funcify_Sum_fast_paths[of "sum_op (Some [])" 2 int_runtime int64] h2 v2
    by (auto simp: int_runtime_def example_matrix_def)
  have c: "\<exists>f. numba_funcify_Sum int_runtime (sum_op (Some [])) 0 int64 = Inr f \<and>
        f (NDArray [] [7]) = Inr (Array (NDArray [] [7]))"
    using numba_funcify_Sum_fast_paths[of "sum_op (Some [])" 0 int_runtime int64] h3 v3
    by (auto simp: int_runtime_def)
  from a b c show ?thesis by blast
qed


section \<open>Properties of the CAReduce identity\<close>

lemma careduce_unsigned_overflow:
  "numba_funcify_CAReduce int_runtime (max_op (Some [0])) 1 uint8 = Inl OverflowError"
  by (simp add: numba_funcify_CAReduce_def max_op_def uint8_def resolve_acc_dtype_def
      careduce_identity_def np_array_identity_def Let_def)

lemma careduce_unsigned_not_clamped:
  "careduce_identity uint8 (NegInf :: int identity) = NegInf \<and> iinfo_min uint8 = 0"
  by (simp add: careduce_identity_def uint8_def iinfo_min_def)

lemma careduce_signed_max:
  "(case numba_funcify_CAReduce int_runtime (max_op (Some [0])) 1 int8 of
      Inl e \<Rightarrow> Inl e | Inr f \<Rightarrow> f (NDArray [3] [3, - 5, 7])) = Inr (Array (NDArray [] [7]))"
  by code_simp

lemma careduce_signed_empty:
  "(case numba_funcify_CAReduce int_runtime (max_op (Some [0])) 1 int8 of
      Inl e \<Rightarrow> Inl e | Inr f \<Rightarrow> f (NDArray [0] [])) = Inr (Array (NDArray [] [- 128]))"
  by code_simp

text \<open>
  Claim C4 against the code. The replacement of an infinite identity is guarded by
  \<^verbatim>\<open>np_acc_dtype.kind == "i"\<close>, which leaves out the unsigned integer dtypes. For a
  maximum reduction accumulating in \<open>uint8\<close> the identity stays minus infinity instead of
  becoming the dtype's minimum 0, the conversion \<^verbatim>\<open>np.array(identity, dtype=uint8)\<close> on the
  next line raises \<open>OverflowError\<close>, and no kernel is built. With the signed dtype \<open>int8\<close>
  the same reduction is built with identity \<open>-128\<close>: it returns the maximum of a
  non-empty vector and \<open>-128\<close> on an empty one.
\<close>

theorem numba_funcify_CAReduce_unsigned_identity:
  "careduce_identity uint8 (NegInf :: int identity) = NegInf \<and>
   iinfo_min uint8 = 0 \<and>
   numba_funcify_CAReduce int_runtime (max_op (Some [0])) 1 uint8 = Inl OverflowError \<and>
   (case numba_funcify_CAReduce int_runtime (max_op (Some [0])) 1 int8 of
      Inl e \<Rightarrow> Inl e | Inr f \<Rightarrow> f (NDArray [3] [3, - 5, 7])) = Inr (Array (NDArray [] [7])) \<and>
   (case numba_funcify_CAReduce int_runtime (max_op (Some [0])) 1 int8 of
      Inl e \<Rightarrow> Inl e | Inr f \<Rightarrow> f (NDArray [0] [])) = Inr (Array (NDArray [] [- 128]))"
  using careduce_unsigned_overflow careduce_unsigned_not_clamped careduce_signed_max
    careduce_signed_empty
  by (simp only: simp_thms)


section \<open>Properties of the elementwise builders\<close>

text \<open>
  Claim C5 against the code. The reference implementation compares every input's axis
  lengths with \<^verbatim>\<open>inputs[0].shape\<close>, not with the common broadcast shape. Adding a \<open>(3,1)\<close>
  input whose axes are not broadcastable to a \<open>(3,4)\<close> input, with the \<open>(3,1)\<close> input first,
  raises nothing and returns a \<open>(3,1)\<close> result, although the common shape is \<open>(3,4)\<close>; with
  the inputs in the other order the same pair is rejected.
\<close>

theorem elemwise_first_input_unchecked:
  "broadcast_shape [shape column_3x1, shape matrix_3x4] = Inr [3, 4] \<and>
   elemwise int_runtime add_fn add_node [column_3x1, matrix_3x4] =
     Inr [NDArray [3, 1] [11, 25, 39]] \<and>
   elemwise int_runtime add_fn add_node [matrix_3x4, column_3x1] = Inl ValueError"
  by code_simp

lemma map_result_length:
  "map_result f xs = Inr ys \<Longrightarrow> length ys = length xs"
  by (induction xs arbitrary: ys) (auto split: sum.splits)

lemma elemwise_output_count:
  "elemwise rt fn node ins = Inr outs \<Longrightarrow> length outs = length (outputs node)"
  by (auto simp: elemwise_def Let_def split: sum.splits list.splits if_splits
      dest!: map_result_length)

lemma numba_funcify_Elemwise_builds:
  assumes "(if \<not> is_composite env (el_scalar_op op)
            then (case make_scalar_node env (el_scalar_op op) (map type_dtype (inputs node)) of
                    Inl e \<Rightarrow> Inl e | Inr n \<Rightarrow> Inr (Some n))
            else Inr None) = Inr scalar_node"
    and "numba_funcify env (el_scalar_op op) scalar_node = Inr fn"
    and "store_core_outputs env fn (length (inputs node)) (length (outputs node)) = Inr core"
  shows "\<exists>kern. numba_funcify_Elemwise rt env op node = Inr kern \<and>
           reference kern = elemwise rt fn node \<and>
           core_op_fn (elemwise_wrapper kern) = core \<and>
           length (output_dtypes (elemwise_wrapper kern)) = length (outputs node)"
  unfolding numba_funcify_Elemwise_def assms(1) by (simp add: assms(2,3))

text \<open>
  Claim C6, as the code has it. \<^verbatim>\<open>create_vectorize_func\<close> rejects a node with more than
  one output with \<open>NotImplementedError\<close> before a signature is built or anything is
  compiled, whatever its collaborators would do. \<^verbatim>\<open>numba_funcify_Elemwise\<close> has no such
  check: whenever the translation of the scalar operator and \<^verbatim>\<open>store_core_outputs\<close> succeed
  it returns a kernel, for any number of outputs, and a successful run of the reference
  implementation returns one array per output.
\<close>

theorem multi_output_rejection:
  "(length (outputs node) > 1 \<longrightarrow>
      create_vectorize_func venv scalar_op_fn node use_signature ident = Inl NotImplementedError) \<and>
   ((if \<not> is_composite env (el_scalar_op op)
     then (case make_scalar_node env (el_scalar_op op) (map type_dtype (inputs node)) of
             Inl e \<Rightarrow> Inl e | Inr n \<Rightarrow> Inr (Some n))
     else Inr None) = Inr scalar_node \<and>
    numba_funcify env (el_scalar_op op) scalar_node = Inr fn \<and>
    store_core_outputs env fn (length (inputs node)) (length (outputs node)) = Inr core \<longrightarrow>
      (\<exists>kern. numba_funcify_Elemwise rt env op node = Inr kern \<and>
         reference kern = elemwise rt fn node \<and>
         (\<forall>ins outs. reference kern ins = Inr outs \<longrightarrow> length outs = length (outputs node))))"
proof (intro conjI impI)
  assume "length (outputs node) > 1"
  then show "create_vectorize_func venv scalar_op_fn node use_signature ident = Inl NotImplementedError"
    by (simp add: create_vectorize_func_def)
next
  assume h: "(if \<not> is_composite env (el_scalar_op op)
     then (case make_scalar_node env (el_scalar_op op) (map type_dtype (inputs node)) of
             Inl e \<Rightarrow> Inl e | Inr n \<Rightarrow> Inr (Some n))
     else Inr None) = Inr scalar_node \<and>
    numba_funcify env (el_scalar_op op) scalar_node = Inr fn \<and>
    store_core_outputs env fn (length (inputs node)) (length (outputs node)) = Inr core"
  then obtain kern where k: "numba_funcify_Elemwise rt env op node = Inr kern"
      "reference kern = elemwise rt fn node"
    using numba_funcify_Elemwise_builds[of env op node scalar_node fn core rt] by blast
  have "\<forall>ins outs. reference kern ins = Inr outs \<longrightarrow> length outs = length (outputs node)"
    using elemwise_output_count[of rt fn node] by (auto simp: k(2))
  with k show "\<exists>kern. numba_funcify_Elemwise rt env op node = Inr kern \<and>
         reference kern = elemwise rt fn node \<and>
         (\<forall>ins outs. reference kern ins = Inr outs \<longrightarrow> length outs = length (outputs node))"
    by blast
qed

lemma two_output_run:
  "elemwise int_runtime sum_and_product two_output_node [example_matrix, example_matrix] =
     Inr [NDArray [2, 3] [2, 4, 6, 8, 10, 12], NDArray [2, 3] [1, 4, 9, 16, 25, 36]]"
  by code_simp

theorem multi_output_rejection_witness:
  "create_vectorize_func scenario_vectorize_env (Dispatcher sum_and_product) two_output_node
     True None = Inl NotImplementedError \<and>
   (\<exists>kern. numba_funcify_Elemwise int_runtime (scenario_env sum_and_product) scenario_op
             two_output_node = Inr kern \<and>
      reference kern [example_matrix, example_matrix] =
        Inr [NDArray [2, 3] [2, 4, 6, 8, 10, 12], NDArray [2, 3] [1, 4, 9, 16, 25, 36]])"
proof -
  have h1: "length (outputs two_output_node) > 1" by (simp add: two_output_node_def)
  have h2: "(if \<not> is_composite (scenario_env sum_and_product) (el_scalar_op scenario_op)
     then (case make_scalar_node (scenario_env sum_and_product) (el_scalar_op scenario_op)
                  (map type_dtype (inputs two_output_node)) of
             Inl e \<Rightarrow> Inl e | Inr n \<Rightarrow> Inr (Some n))
     else Inr None) = Inr None \<and>
    numba_funcify (scenario_env sum_and_product) (el_scalar_op scenario_op) None = Inr sum_and_product \<and>
    store_core_outputs (scenario_env sum_and_product) sum_and_product
      (length (inputs two_output_node)) (length (outputs two_output_node)) =
        Inr (sum_and_product, 2, 2)"
    by (simp add: scenario_env_def two_output_node_def)
  have a: "create_vectorize_func scenario_vectorize_env (Dispatcher sum_and_product) two_output_node
     True None = Inl NotImplementedError"
    by (rule multi_output_rejection[THEN conjunct1, THEN mp, OF h1])
  note m2 = multi_output_rejection[THEN conjunct2, THEN mp, OF h2]
  obtain kern where k: "numba_funcify_Elemwise int_runtime (scenario_env sum_and_product) scenario_op
             two_output_node = Inr kern" "reference kern = elemwise int_runtime sum_and_product two_output_node"
    using m2[of int_runtime] by blast
  from k two_output_run have "\<exists>kern. numba_funcify_Elemwise int_runtime (scenario_env sum_and_product)
             scenario_op two_output_node = Inr kern \<and>
      reference kern [example_matrix, example_matrix] =
        Inr [NDArray [2, 3] [2, 4, 6, 8, 10, 12], NDArray [2, 3] [1, 4, 9, 16, 25, 36]]"
    by simp
  with a show ?thesis by blast
qed

text \<open>
  Claim C6 as stated fails for \<^verbatim>\<open>numba_funcify_Elemwise\<close> on a node with two outputs: a
  kernel is built, and its reference implementation returns both outputs.
\<close>

theorem numba_funcify_Elemwise_two_outputs_counterexample:
  "length (outputs two_output_node) = 2 \<and>
   (case numba_funcify_Elemwise int_runtime (scenario_env sum_and_product) scenario_op
           two_output_node of
      Inl e \<Rightarrow> Inl e
    | Inr kern \<Rightarrow> reference kern [example_matrix, example_matrix]) =
     Inr [NDArray [2, 3] [2, 4, 6, 8, 10, 12], NDArray [2, 3] [1, 4, 9, 16, 25, 36]]"
  by code_simp


section \<open>Properties of the DimShuffle kernel\<close>

lemma no_transpose_identity:
  "transposition op = [0..<n] \<Longrightarrow> no_transpose op"
  by (auto simp: no_transpose_def enumerate_eq_zip list_all_iff in_set_zip)

lemma find_shape_loop_copy:
  "length shp = length array_shape \<Longrightarrow> k \<le> length array_shape \<Longrightarrow>
     find_shape_loop [] array_shape [k..<length array_shape] shp k =
       Inr (take k shp @ drop k array_shape)"
proof (induction "length array_shape - k" arbitrary: k shp)
  case 0
  then show ?case by simp
next
  case (Suc m)
  then have lt: "k < length array_shape" by simp
  have up: "[k..<length array_shape] = k # [Suc k..<length array_shape]"
    using lt by (simp add: upt_conv_Cons)
  have "find_shape_loop [] array_shape [Suc k..<length array_shape] (shp[k := array_shape ! k]) (Suc k) =
        Inr (take (Suc k) (shp[k := array_shape ! k]) @ drop (Suc k) array_shape)"
    using Suc.hyps(1)[of "Suc k" "shp[k := array_shape ! k]"] Suc.hyps(2) Suc.prems lt by simp
  moreover have "take (Suc k) (shp[k := array_shape ! k]) @ drop (Suc k) array_shape =
                 take k shp @ drop k array_shape"
    using lt Suc.prems
    by (simp add: take_Suc_conv_app_nth Cons_nth_drop_Suc)
  ultimately show ?case using lt by (simp add: up)
qed

lemma static_shape_known:
  "list_all2 (\<lambda>l n. l = None \<or> l = Some n) static shp \<Longrightarrow>
     list_all (\<lambda>l. l \<noteq> None) static \<Longrightarrow> map the static = shp"
  by (induction static shp rule: list_all2_induct) auto

lemma np_reshape_same:
  "wf_array x \<Longrightarrow> np_reshape x (shape x) = Inr x"
  by (simp add: np_reshape_def wf_array_def)

lemma dimshuffle_identity:
  assumes op: "shuffle op = [0..<n]" "transposition op = [0..<n]" "augment op = []"
    and x: "wf_array x" "length (shape x) = n"
    and st: "list_all2 (\<lambda>l n. l = None \<or> l = Some n) static (shape x)"
  shows "numba_funcify_DimShuffle op static x = Inr x"
proof (cases "n = 0")
  case True
  then have "shape x = []" using x(2) by simp
  then have "np_reshape x [] = Inr x" using np_reshape_same[OF x(1)] by simp
  then show ?thesis using True op
    by (simp add: numba_funcify_DimShuffle_def dimshuffle_inner_def)
next
  case False
  have t: "dimshuffle_transpose op x = Inr x"
    using no_transpose_identity[OF op(2)] by (simp add: dimshuffle_transpose_def)
  have tk: "take (length (shuffle op)) (shape x) = shape x" using op(1) x(2) by simp
  have fs: "find_shape op static (shape x) = Inr (shape x)"
  proof (cases "list_all (\<lambda>l. l \<noteq> None) static")
    case True
    then have "map the static = shape x"
      using static_shape_known[OF st] by simp
    with True False op show ?thesis by (simp add: find_shape_def)
  next
    case nk: False
    have "find_shape_loop [] (shape x) [0..<length (shape x)] (replicate n 1) 0 =
          Inr (take 0 (replicate n 1) @ drop 0 (shape x))"
      using find_shape_loop_copy[of "replicate n 1" "shape x" 0] x(2) by simp
    with nk False op x(2) show ?thesis by (simp add: find_shape_def)
  qed
  have "dimshuffle_inner op static x = Inr x"
    using False op(1) x(2)
    by (simp add: dimshuffle_inner_def t fs np_reshape_same[OF x(1)])
  then show ?thesis by (simp add: numba_funcify_DimShuffle_def)
qed

lemma matrix_2x3_form:
  assumes "wf_array x" "shape x = [2, 3]"
  shows "\<exists>a b c d e f. x = NDArray [2, 3] [a, b, c, d, e, f]"
proof -
  from assms have "length (data x) = 6" by (simp add: wf_array_def)
  then have "length (data x) = Suc (Suc (Suc (Suc (Suc (Suc 0)))))" by simp
  then obtain a b c d e f where "data x = [a, b, c, d, e, f]"
    by (auto simp: length_Suc_conv)
  with assms(2) have "x = NDArray [2, 3] [a, b, c, d, e, f]" by (cases x) simp
  then show ?thesis by blast
qed

lemma swap_axes_forth:
  "numba_funcify_DimShuffle swap_axes_op [None, None] (NDArray [2, 3] [a, b, c, d, e, f]) =
     Inr (NDArray [3, 2] [a, d, b, e, c, f])"
  by (simp add: numba_funcify_DimShuffle_def dimshuffle_inner_def swap_axes_op_def
      dimshuffle_transpose_def no_transpose_def enumerate_eq_zip np_transpose_def
      normalize_axis_tuple_def normalize_axis_index_def permute_axes_def Let_def
      source_index_def index_of_def getitem_def find_shape_def np_reshape_def
      upt_conv_Cons)

lemma swap_axes_back:
  "numba_funcify_DimShuffle swap_axes_op [None, None] (NDArray [3, 2] [a, d, b, e, c, f]) =
     Inr (NDArray [2, 3] [a, b, c, d, e, f])"
  by (simp add: numba_funcify_DimShuffle_def dimshuffle_inner_def swap_axes_op_def
      dimshuffle_transpose_def no_transpose_def enumerate_eq_zip np_transpose_def
      normalize_axis_tuple_def normalize_axis_index_def permute_axes_def Let_def
      source_index_def index_of_def getitem_def find_shape_def np_reshape_def
      upt_conv_Cons)


text \<open>
  Claim C7. For a DimShuffle whose shuffle and transposition are the identity permutation
  of the input's axes and which inserts no axis, the transpose step is the identity
  function and the kernel returns its (well-formed, C-ordered) input unchanged, whether
  the output's static shape is known or found at run time. For every \<open>(2,3)\<close> array, the
  DimShuffle that swaps the axes yields a \<open>(3,2)\<close> array, and applying it again gives the
  original array back.
\<close>

theorem numba_funcify_DimShuffle_identity_and_round_trip:
  "(shuffle op = [0..<n] \<and> transposition op = [0..<n] \<and> augment op = [] \<and>
    wf_array x \<and> length (shape x) = n \<and>
    list_all2 (\<lambda>l n. l = None \<or> l = Some n) static (shape x) \<longrightarrow>
      dimshuffle_transpose op = (Inr :: 'a ndarray \<Rightarrow> error + 'a ndarray) \<and>
      numba_funcify_DimShuffle op static (x :: 'a ndarray) = Inr x) \<and>
   (wf_array m \<and> shape m = [2, 3] \<longrightarrow>
      (\<exists>y. numba_funcify_DimShuffle swap_axes_op [None, None] (m :: 'b ndarray) = Inr y \<and>
           shape y = [3, 2] \<and>
           numba_funcify_DimShuffle swap_axes_op [None, None] y = Inr m))"
proof (intro conjI impI)
  assume h: "shuffle op = [0..<n] \<and> transposition op = [0..<n] \<and> augment op = [] \<and>
    wf_array x \<and> length (shape x) = n \<and>
    list_all2 (\<lambda>l n. l = None \<or> l = Some n) static (shape x)"
  then show "dimshuffle_transpose op = (Inr :: 'a ndarray \<Rightarrow> error + 'a ndarray)"
    using no_transpose_identity[of op n] by (simp add: dimshuffle_transpose_def)
  from h show "numba_funcify_DimShuffle op static x = Inr x"
    using dimshuffle_identity[of op n x static] by blast
next
  assume "wf_array m \<and> shape m = [2, 3]"
  then obtain a b c d e f where m: "m = NDArray [2, 3] [a, b, c, d, e, f]"
    using matrix_2x3_form[of m] by blast
  show "\<exists>y. numba_funcify_DimShuffle swap_axes_op [None, None] m = Inr y \<and>
           shape y = [3, 2] \<and>
           numba_funcify_DimShuffle swap_axes_op [None, None] y = Inr m"
    unfolding m using swap_axes_forth[of a b c d e f] swap_axes_back[of a d b e c f] by simp
qed

theorem numba_funcify_DimShuffle_identity_and_round_trip_witness:
  "numba_funcify_DimShuffle
     \<lparr>shuffle = [0, 1], transposition = [0, 1], augment = [], inplace = False\<rparr>
     [Some 2, None] example_matrix = Inr example_matrix \<and>
   (\<exists>y. numba_funcify_DimShuffle swap_axes_op [None, None] example_matrix = Inr y \<and>
        shape y = [3, 2] \<and>
        numba_funcify_DimShuffle swap_axes_op [None, None] y = Inr example_matrix)"
proof -
  let ?op = "\<lparr>shuffle = [0, 1], transposition = [0, 1], augment = [], inplace = False\<rparr>"
  have u: "[0..<2] = [0, Suc 0]" by (simp add: upt_conv_Cons)
  have h1: "shuffle ?op = [0..<2] \<and> transposition ?op = [0..<2] \<and> augment ?op = [] \<and>
    wf_array example_matrix \<and> length (shape example_matrix) = 2 \<and>
    list_all2 (\<lambda>l n. l = None \<or> l = Some n) [Some 2, None] (shape example_matrix)"
    by (simp add: u example_matrix_def wf_array_def)
  have h2: "wf_array example_matrix \<and> shape example_matrix = [2, 3]"
    by (simp add: example_matrix_def wf_array_def)
  from numba_funcify_DimShuffle_identity_and_round_trip
         [of ?op 2 example_matrix "[Some 2, None]" example_matrix] h1 h2
  show ?thesis by blast
qed


section \<open>Properties of the Argmax kernel\<close>

lemma argmax_scan_props:
  assumes "pre \<noteq> []" "i = length pre" "bi < i" "best = pre ! bi" "best = Max (set pre)"
    and "\<forall>j<bi. pre ! j < best"
  shows "argmax_scan best bi i vs < length (pre @ vs) \<and>
         (pre @ vs) ! argmax_scan best bi i vs = Max (set (pre @ vs)) \<and>
         (\<forall>j<argmax_scan best bi i vs. (pre @ vs) ! j < (pre @ vs) ! argmax_scan best bi i vs)"
  using assms
proof (induction vs arbitrary: pre i bi best)
  case Nil
  then show ?case by simp
next
  case (Cons v vs)
  let ?pre = "pre @ [v]"
  have mx: "Max (set ?pre) = max v best"
    using Cons.prems(1,5) by simp
  show ?case
  proof (cases "best < v")
    case True
    have le: "\<forall>j<i. ?pre ! j < v"
    proof (intro allI impI)
      fix j assume j: "j < i"
      then have "pre ! j \<in> set pre" using Cons.prems(2) by simp
      then have "pre ! j \<le> best" using Cons.prems(5) by simp
      then show "?pre ! j < v" using True j Cons.prems(2) by (simp add: nth_append)
    qed
    have r: "argmax_scan v i (Suc i) vs < length (?pre @ vs) \<and>
         (?pre @ vs) ! argmax_scan v i (Suc i) vs = Max (set (?pre @ vs)) \<and>
         (\<forall>j<argmax_scan v i (Suc i) vs. (?pre @ vs) ! j < (?pre @ vs) ! argmax_scan v i (Suc i) vs)"
    proof (rule Cons.IH)
      show "?pre \<noteq> []" by simp
      show "Suc i = length ?pre" using Cons.prems(2) by simp
      show "i < Suc i" by simp
      show "v = ?pre ! i" using Cons.prems(2) by simp
      show "v = Max (set ?pre)" using mx True by (auto simp: max_def)
      show "\<forall>j<i. ?pre ! j < v" by (rule le)
    qed
    have sc: "argmax_scan best bi i (v # vs) = argmax_scan v i (Suc i) vs"
      using True by simp
    have app: "(pre @ [v]) @ vs = pre @ v # vs" by simp
    from r[unfolded app] show ?thesis unfolding sc .
  next
    case False
    have r: "argmax_scan best bi (Suc i) vs < length (?pre @ vs) \<and>
         (?pre @ vs) ! argmax_scan best bi (Suc i) vs = Max (set (?pre @ vs)) \<and>
         (\<forall>j<argmax_scan best bi (Suc i) vs. (?pre @ vs) ! j < (?pre @ vs) ! argmax_scan best bi (Suc i) vs)"
    proof (rule Cons.IH)
      show "?pre \<noteq> []" by simp
      show "Suc i = length ?pre" using Cons.prems(2) by simp
      show "bi < Suc i" using Cons.prems(3) by simp
      show "best = ?pre ! bi" using Cons.prems(2,3,4) by (simp add: nth_append)
      show "best = Max (set ?pre)" using mx False by (auto simp: max_def)
      show "\<forall>j<bi. ?pre ! j < best" using Cons.prems(2,3,6) by (simp add: nth_append)
    qed
    have sc: "argmax_scan best bi i (v # vs) = argmax_scan best bi (Suc i) vs"
      using False by simp
    have app: "(pre @ [v]) @ vs = pre @ v # vs" by simp
    from r[unfolded app] show ?thesis unfolding sc .
  qed
qed

lemma np_argmax_props:
  assumes "vs \<noteq> []"
  shows "\<exists>k. np_argmax vs = Inr k \<and> k < length vs \<and> vs ! k = Max (set vs) \<and>
             (\<forall>j<k. vs ! j < vs ! k)"
proof -
  from assms obtain v rest where vs: "vs = v # rest" by (cases vs) auto
  have r: "argmax_scan v 0 1 rest < length ([v] @ rest) \<and>
        ([v] @ rest) ! argmax_scan v 0 1 rest = Max (set ([v] @ rest)) \<and>
        (\<forall>j<argmax_scan v 0 1 rest. ([v] @ rest) ! j < ([v] @ rest) ! argmax_scan v 0 1 rest)"
    by (rule argmax_scan_props) simp_all
  have app: "[v] @ rest = vs" by (simp add: vs)
  have "np_argmax vs = Inr (argmax_scan v 0 1 rest)" by (simp add: vs np_argmax_def)
  with r[unfolded app] show ?thesis by blast
qed

lemma map_result_total:
  "\<forall>x\<in>set xs. f x = Inr (g x) \<Longrightarrow> map_result f xs = Inr (map g xs)"
  by (induction xs) simp_all

lemma create_axis_apply_fn_last:
  assumes "0 < n"
  shows "create_axis_apply_fn conv fn (int n - 1) (int n) dt =
           Inr (axis_apply_fn fn (conv dt) [0..<n])"
proof -
  obtain k where k: "n = Suc k" using assms by (cases n) auto
  have a: "normalize_axis_index (int n - 1) n = Inr (n - 1)"
    by (simp add: normalize_axis_index_def k)
  have "filter (\<lambda>i. i \<noteq> k) [0..<Suc k] @ [k] = [0..<Suc k]"
    by simp
  then have b: "filter (\<lambda>i. i \<noteq> n - 1) [0..<n] @ [n - 1] = [0..<n]"
    by (simp only: k diff_Suc_1)
  show ?thesis
    unfolding create_axis_apply_fn_def nat_int a by (simp only: sum.case Let_def b)
qed

lemma axis_apply_fn_last:
  assumes "wf_array y" "length (shape y) = n"
  shows "axis_apply_fn fn store [0..<n] y =
           (case map_result (\<lambda>m. map_sum id store (fn (last_axis_slice y m)))
                   (ndindex (butlast (shape y))) of
              Inl e \<Rightarrow> Inl e
            | Inr res \<Rightarrow> Inr (NDArray (butlast (shape y)) res))"
  using np_transpose_identity[OF assms(1)] assms(2)
  by (simp add: axis_apply_fn_def Let_def)

lemma last_axis_slice_block:
  assumes "length m = length kept_shape"
  shows "last_axis_slice (NDArray (kept_shape @ [prod_list reduced_shape]) ds) m =
         map (\<lambda>q. getitem (NDArray (kept_shape @ reduced_shape) ds) (m @ q)) (ndindex reduced_shape)"
proof -
  let ?P = "prod_list reduced_shape"
  let ?F = "flat_index kept_shape m"
  have "map (\<lambda>q. getitem (NDArray (kept_shape @ reduced_shape) ds) (m @ q)) (ndindex reduced_shape) =
        map (\<lambda>k. ds ! (?F * ?P + k)) (map (flat_index reduced_shape) (ndindex reduced_shape))"
    by (simp add: getitem_def flat_index_append[OF assms[symmetric]] comp_def)
  also have "\<dots> = map (\<lambda>k. ds ! (?F * ?P + k)) [0..<?P]"
    by (simp only: flat_index_ndindex)
  also have "\<dots> = last_axis_slice (NDArray (kept_shape @ [?P]) ds) m"
    by (simp add: last_axis_slice_def getitem_def flat_index_append[OF assms[symmetric]])
  finally show ?thesis by simp
qed


lemma keep_axes_length:
  assumes "distinct axes" "\<forall>a\<in>set axes. 0 \<le> a \<and> a < int n"
  shows "length (keep_axes_of axes n) + length axes = n"
proof -
  let ?xs = "map int [0..<n]"
  have d: "distinct (filter (\<lambda>i. i \<in> set axes) ?xs)"
    by (simp add: distinct_map)
  have "set (filter (\<lambda>i. i \<in> set axes) ?xs) = set axes"
  proof
    show "set (filter (\<lambda>i. i \<in> set axes) ?xs) \<subseteq> set axes" by auto
    show "set axes \<subseteq> set (filter (\<lambda>i. i \<in> set axes) ?xs)"
    proof
      fix a assume a: "a \<in> set axes"
      with assms(2) have "0 \<le> a" "a < int n" by auto
      then have "a = int (nat a)" "nat a < n" by auto
      then have "a \<in> set ?xs" by (metis atLeastLessThan_iff image_eqI le0 set_map set_upt)
      with a show "a \<in> set (filter (\<lambda>i. i \<in> set axes) ?xs)" by simp
    qed
  qed
  then have "card (set (filter (\<lambda>i. i \<in> set axes) ?xs)) = card (set axes)" by simp
  then have "length (filter (\<lambda>i. i \<in> set axes) ?xs) = length axes"
    using d assms(1) by (simp only: distinct_card)
  moreover have "length (filter (\<lambda>i. i \<in> set axes) ?xs) +
                 length (filter (\<lambda>i. \<not> i \<in> set axes) ?xs) = length ?xs"
    by (rule sum_length_filter_compl)
  ultimately show ?thesis by (simp add: keep_axes_of_def)
qed

lemma keep_axes_perm:
  assumes "distinct axes" "\<forall>a\<in>set axes. 0 \<le> a \<and> a < int n"
  shows "normalize_axis_tuple (keep_axes_of axes n @ axes) n =
           Inr (map nat (keep_axes_of axes n @ axes))"
proof -
  let ?l = "keep_axes_of axes n @ axes"
  have nonneg: "\<forall>a\<in>set ?l. 0 \<le> a \<and> a < int n"
    using assms(2) by (auto simp: keep_axes_of_def)
  have dl: "distinct ?l"
    using assms(1) by (auto simp: keep_axes_of_def distinct_map)
  have "inj_on nat (set ?l)"
    using nonneg by (intro inj_onI) (metis nat_eq_iff2 int_nat_eq)
  with dl have d: "distinct (map nat ?l)" by (simp only: distinct_map)
  have r: "\<forall>a\<in>set (map nat ?l). a < n"
  proof
    fix a assume "a \<in> set (map nat ?l)"
    then obtain b where b: "b \<in> set ?l" "a = nat b" by auto
    with nonneg have "0 \<le> b" "b < int n" by blast+
    then show "a < n" using b(2) by linarith
  qed
  have "map int (map nat ?l) = ?l"
    using nonneg by (simp add: map_idI)
  with normalize_axis_tuple_nats[OF d r] show ?thesis by simp
qed


lemma numba_funcify_Argmax_unfold:
  assumes "0 < x_ndim"
    and "create_axis_apply_fn index_as np_argmax (int x_ndim - int (length axes) + 1 - 1)
           (int x_ndim - int (length axes) + 1) int64 = Inr argmax_axis"
  shows "numba_funcify_Argmax axes x_ndim =
     Inr (\<lambda>x. case np_transpose x (keep_axes_of axes x_ndim @ axes) of
                 Inl e \<Rightarrow> Inl e
               | Inr tx \<Rightarrow>
                   (case np_reshape tx (take (length (keep_axes_of axes x_ndim)) (shape tx) @
                           [prod_list (drop (length (keep_axes_of axes x_ndim)) (shape tx))]) of
                      Inl e \<Rightarrow> Inl e
                    | Inr y \<Rightarrow> map_sum id Array (argmax_axis y)))"
  using assms by (simp add: numba_funcify_Argmax_def Let_def cong: sum.case_cong)

lemma index_as_int64: "k < 2 ^ 63 \<Longrightarrow> index_as int64 k = int k"
proof -
  assume "k < 2 ^ 63"
  then have "int k < 2 ^ 63" by (metis of_nat_less_iff of_nat_numeral of_nat_power)
  then have "(int k + 2 ^ 63) mod 2 ^ 64 = int k + 2 ^ 63" by simp
  then show ?thesis by (simp add: index_as_def int_astype_def int64_def)
qed

lemma argmax_kernel:
  fixes x :: "'a::linorder ndarray"
  assumes nz: "0 < x_ndim" and dist: "distinct axes"
    and rng: "\<forall>a\<in>set axes. 0 \<le> a \<and> a < int x_ndim"
    and wf: "wf_array x" and rk: "length (shape x) = x_ndim"
    and ne: "0 < prod_list (map (\<lambda>a. shape x ! nat a) axes)"
    and bd: "prod_list (map (\<lambda>a. shape x ! nat a) axes) < 2 ^ 63"
  defines "keep \<equiv> keep_axes_of axes x_ndim"
  defines "t \<equiv> permute_axes x (map nat (keep @ axes))"
  shows "\<exists>f r. numba_funcify_Argmax axes x_ndim = Inr f \<and>
           np_transpose x (keep @ axes) = Inr t \<and>
           shape t = map (\<lambda>a. shape x ! nat a) (keep @ axes) \<and>
           f x = Inr (Array r) \<and>
           shape r = map (\<lambda>a. shape x ! nat a) keep \<and>
           (\<forall>m\<in>set (ndindex (shape r)).
              \<exists>k. getitem r m = int k \<and>
                  k < length (reduced_block t (length keep) m) \<and>
                  reduced_block t (length keep) m ! k =
                    Max (set (reduced_block t (length keep) m)) \<and>
                  (\<forall>j<k. reduced_block t (length keep) m ! j <
                            reduced_block t (length keep) m ! k))"
proof -
  let ?kept = "map (\<lambda>a. shape x ! nat a) keep"
  let ?red = "map (\<lambda>a. shape x ! nat a) axes"
  let ?P = "prod_list ?red"
  let ?nk = "length keep"
  have len: "?nk + length axes = x_ndim"
    unfolding keep_def by (rule keep_axes_length[OF dist rng])
  have tr: "np_transpose x (keep @ axes) = Inr t"
    using keep_axes_perm[OF dist rng] len rk
    by (simp add: np_transpose_def keep_def t_def)
  have st: "shape t = ?kept @ ?red"
    by (simp add: t_def permute_axes_def Let_def comp_def)
  have tk: "take ?nk (shape t) = ?kept" and dr: "drop ?nk (shape t) = ?red"
    by (simp_all add: st)
  have "wf_array t" unfolding t_def by (rule wf_permute_axes)
  then have wft: "length (data t) = prod_list ?kept * ?P"
    by (simp add: wf_array_def st)
  let ?y = "NDArray (?kept @ [?P]) (data t)"
  have rs: "np_reshape t (?kept @ [?P]) = Inr ?y"
    by (simp add: np_reshape_def wft)
  have wfy: "wf_array ?y" by (simp add: wf_array_def wft)
  have ranky: "length (shape ?y) = Suc ?nk" by simp
  have e: "int x_ndim - int (length axes) + 1 = int (Suc ?nk)"
    using len by linarith
  have builder: "create_axis_apply_fn index_as np_argmax (int x_ndim - int (length axes) + 1 - 1)
      (int x_ndim - int (length axes) + 1) int64 =
        Inr (axis_apply_fn np_argmax (index_as int64) [0..<Suc ?nk])"
    unfolding e by (rule create_axis_apply_fn_last) simp
  define g where "g m = (case np_argmax (reduced_block t ?nk m) of Inr k \<Rightarrow> k | Inl e \<Rightarrow> 0)" for m
  have dt: "NDArray (?kept @ ?red) (data t) = t"
    using st by (cases t) simp
  have blk: "last_axis_slice ?y m = reduced_block t ?nk m" if "m \<in> set (ndindex ?kept)" for m
  proof -
    have "length m = length ?kept" using that by (rule ndindex_length)
    from last_axis_slice_block[OF this, of ?red "data t"]
    show ?thesis by (simp only: dt reduced_block_def dr)
  qed
  have lenb: "length (reduced_block t ?nk m) = ?P" for m
    by (simp add: reduced_block_def dr length_ndindex)
  have am: "np_argmax (reduced_block t ?nk m) = Inr (g m) \<and>
            g m < length (reduced_block t ?nk m) \<and>
            reduced_block t ?nk m ! g m = Max (set (reduced_block t ?nk m)) \<and>
            (\<forall>j<g m. reduced_block t ?nk m ! j < reduced_block t ?nk m ! g m)" for m
  proof -
    have "reduced_block t ?nk m \<noteq> []" using lenb[of m] ne by auto
    from np_argmax_props[OF this] obtain k where
      k: "np_argmax (reduced_block t ?nk m) = Inr k" "k < length (reduced_block t ?nk m)"
         "reduced_block t ?nk m ! k = Max (set (reduced_block t ?nk m))"
         "\<forall>j<k. reduced_block t ?nk m ! j < reduced_block t ?nk m ! k"
      by blast
    have "g m = k" by (simp add: g_def k(1))
    with k show ?thesis by simp
  qed
  have gi: "index_as int64 (g m) = int (g m)" for m
  proof (rule index_as_int64)
    have "g m < ?P" using am[of m] lenb[of m] by simp
    with bd show "g m < 2 ^ 63" by simp
  qed
  have mr: "map_result (\<lambda>m. map_sum id (index_as int64) (np_argmax (last_axis_slice ?y m)))
              (ndindex ?kept) = Inr (map (\<lambda>m. int (g m)) (ndindex ?kept))"
    by (rule map_result_total) (simp add: blk am gi)
  define r where "r = NDArray ?kept (map (\<lambda>m. int (g m)) (ndindex ?kept))"
  have app: "axis_apply_fn np_argmax (index_as int64) [0..<Suc ?nk] ?y = Inr r"
    using axis_apply_fn_last[OF wfy ranky, of np_argmax "index_as int64"] mr by (simp add: r_def)
  let ?f = "\<lambda>x. case np_transpose x (keep_axes_of axes x_ndim @ axes) of
                 Inl e \<Rightarrow> Inl e
               | Inr tx \<Rightarrow>
                   (case np_reshape tx (take (length (keep_axes_of axes x_ndim)) (shape tx) @
                           [prod_list (drop (length (keep_axes_of axes x_ndim)) (shape tx))]) of
                      Inl e \<Rightarrow> Inl e
                    | Inr y \<Rightarrow> map_sum id Array
                        (axis_apply_fn np_argmax (index_as int64) [0..<Suc ?nk] y))"
  have f: "numba_funcify_Argmax axes x_ndim = Inr ?f"
    by (rule numba_funcify_Argmax_unfold[OF nz builder])
  have fx: "?f x = Inr (Array r)"
    using tr tk dr rs app by (simp add: keep_def[symmetric])
  have sr: "shape r = ?kept" by (simp add: r_def)
  have gr: "getitem r m = int (g m)" if "m \<in> set (ndindex ?kept)" for m
    unfolding r_def using that by (rule getitem_mapped)
  have props: "\<forall>m\<in>set (ndindex (shape r)).
              \<exists>k. getitem r m = int k \<and>
                  k < length (reduced_block t ?nk m) \<and>
                  reduced_block t ?nk m ! k = Max (set (reduced_block t ?nk m)) \<and>
                  (\<forall>j<k. reduced_block t ?nk m ! j < reduced_block t ?nk m ! k)"
  proof
    fix m assume "m \<in> set (ndindex (shape r))"
    then have "m \<in> set (ndindex ?kept)" by (simp only: sr)
    from gr[OF this] have "getitem r m = int (g m)" .
    with am[of m] show "\<exists>k. getitem r m = int k \<and>
                  k < length (reduced_block t ?nk m) \<and>
                  reduced_block t ?nk m ! k = Max (set (reduced_block t ?nk m)) \<and>
                  (\<forall>j<k. reduced_block t ?nk m ! j < reduced_block t ?nk m ! k)"
      by blast
  qed
  from f tr st fx sr props show ?thesis by (intro exI[of _ ?f] exI[of _ r]) simp
qed

text \<open>
  Claim C8. For a rank-0 input the kernel returns the constant 0. For an input of rank at
  least 1 and an axis tuple of distinct axes in range whose blocks are not empty (and
  shorter than \<open>2^63\<close>, so that an index fits the 64-bit result), the kernel transposes
  the kept axes to the front, followed by the reduced axes (element \<open>j\<close> of the transposed
  array is element \<open>source_index perm j\<close> of the input), and returns an array over the
  kept axes whose entry at each kept coordinate \<open>m\<close> is the position \<open>k\<close>, in the C-order
  flattening of the whole block of reduced axes at \<open>m\<close>, of the first occurrence of the
  block's maximum: one joint index over all reduced axes.
\<close>

theorem numba_funcify_Argmax_joint:
  "(\<exists>f. numba_funcify_Argmax axes 0 = Inr f \<and> (\<forall>x :: 'a::linorder ndarray. f x = Inr (Scalar 0))) \<and>
   (0 < x_ndim \<and> distinct axes \<and> (\<forall>a\<in>set axes. 0 \<le> a \<and> a < int x_ndim) \<and>
    wf_array x \<and> length (shape x) = x_ndim \<and>
    0 < prod_list (map (\<lambda>a. shape x ! nat a) axes) \<and>
    prod_list (map (\<lambda>a. shape x ! nat a) axes) < 2 ^ 63 \<longrightarrow>
      (\<exists>f t r. numba_funcify_Argmax axes x_ndim = Inr f \<and>
         np_transpose (x :: 'a ndarray) (keep_axes_of axes x_ndim @ axes) = Inr t \<and>
         shape t = map (\<lambda>a. shape x ! nat a) (keep_axes_of axes x_ndim @ axes) \<and>
         (\<forall>j\<in>set (ndindex (shape t)).
            getitem t j = getitem x (source_index (map nat (keep_axes_of axes x_ndim @ axes)) j)) \<and>
         f x = Inr (Array r) \<and>
         shape r = map (\<lambda>a. shape x ! nat a) (keep_axes_of axes x_ndim) \<and>
         (\<forall>m\<in>set (ndindex (shape r)).
            \<exists>k. getitem r m = int k \<and>
                k < length (reduced_block t (length (keep_axes_of axes x_ndim)) m) \<and>
                reduced_block t (length (keep_axes_of axes x_ndim)) m ! k =
                  Max (set (reduced_block t (length (keep_axes_of axes x_ndim)) m)) \<and>
                (\<forall>j<k. reduced_block t (length (keep_axes_of axes x_ndim)) m ! j <
                          reduced_block t (length (keep_axes_of axes x_ndim)) m ! k))))"
proof (intro conjI impI)
  show "\<exists>f. numba_funcify_Argmax axes 0 = Inr f \<and> (\<forall>x :: 'a ndarray. f x = Inr (Scalar 0))"
    by (simp add: numba_funcify_Argmax_def)
next
  assume h: "0 < x_ndim \<and> distinct axes \<and> (\<forall>a\<in>set axes. 0 \<le> a \<and> a < int x_ndim) \<and>
    wf_array x \<and> length (shape x) = x_ndim \<and>
    0 < prod_list (map (\<lambda>a. shape x ! nat a) axes) \<and>
    prod_list (map (\<lambda>a. shape x ! nat a) axes) < 2 ^ 63"
  let ?keep = "keep_axes_of axes x_ndim"
  let ?perm = "map nat (?keep @ axes)"
  let ?t = "permute_axes x ?perm"
  from h have h1: "0 < x_ndim" and h2: "distinct axes"
    and h3: "\<forall>a\<in>set axes. 0 \<le> a \<and> a < int x_ndim"
    and h4: "wf_array x" and h5: "length (shape x) = x_ndim"
    and h6: "0 < prod_list (map (\<lambda>a. shape x ! nat a) axes)"
    and h7: "prod_list (map (\<lambda>a. shape x ! nat a) axes) < 2 ^ 63"
    by simp_all
  from argmax_kernel[OF h1 h2 h3 h4 h5 h6 h7]
  obtain f where "\<exists>r. numba_funcify_Argmax axes x_ndim = Inr f \<and>
           np_transpose x (?keep @ axes) = Inr ?t \<and>
           shape ?t = map (\<lambda>a. shape x ! nat a) (?keep @ axes) \<and>
           f x = Inr (Array r) \<and>
           shape r = map (\<lambda>a. shape x ! nat a) ?keep \<and>
           (\<forall>m\<in>set (ndindex (shape r)).
              \<exists>k. getitem r m = int k \<and>
                  k < length (reduced_block ?t (length ?keep) m) \<and>
                  reduced_block ?t (length ?keep) m ! k =
                    Max (set (reduced_block ?t (length ?keep) m)) \<and>
                  (\<forall>j<k. reduced_block ?t (length ?keep) m ! j <
                            reduced_block ?t (length ?keep) m ! k))" ..
  then obtain r where fr: "numba_funcify_Argmax axes x_ndim = Inr f \<and>
           np_transpose x (?keep @ axes) = Inr ?t \<and>
           shape ?t = map (\<lambda>a. shape x ! nat a) (?keep @ axes) \<and>
           f x = Inr (Array r) \<and>
           shape r = map (\<lambda>a. shape x ! nat a) ?keep \<and>
           (\<forall>m\<in>set (ndindex (shape r)).
              \<exists>k. getitem r m = int k \<and>
                  k < length (reduced_block ?t (length ?keep) m) \<and>
                  reduced_block ?t (length ?keep) m ! k =
                    Max (set (reduced_block ?t (length ?keep) m)) \<and>
                  (\<forall>j<k. reduced_block ?t (length ?keep) m ! j <
                            reduced_block ?t (length ?keep) m ! k))" ..
  note c1 = fr[THEN conjunct1]
  note c2 = fr[THEN conjunct2, THEN conjunct1]
  note c3 = fr[THEN conjunct2, THEN conjunct2, THEN conjunct1]
  note c4 = fr[THEN conjunct2, THEN conjunct2, THEN conjunct2, THEN conjunct1]
  note c5 = fr[THEN conjunct2, THEN conjunct2, THEN conjunct2, THEN conjunct2, THEN conjunct1]
  note c6 = fr[THEN conjunct2, THEN conjunct2, THEN conjunct2, THEN conjunct2, THEN conjunct2]
  have src: "\<forall>j\<in>set (ndindex (shape ?t)). getitem ?t j = getitem x (source_index ?perm j)"
  proof
    fix j assume "j \<in> set (ndindex (shape ?t))"
    then have "j \<in> set (ndindex (map (\<lambda>a. shape x ! a) ?perm))"
      by (simp add: permute_axes_def Let_def)
    then show "getitem ?t j = getitem x (source_index ?perm j)"
      by (rule getitem_permute_axes)
  qed
  show "\<exists>f t r. numba_funcify_Argmax axes x_ndim = Inr f \<and>
         np_transpose x (?keep @ axes) = Inr t \<and>
         shape t = map (\<lambda>a. shape x ! nat a) (?keep @ axes) \<and>
         (\<forall>j\<in>set (ndindex (shape t)). getitem t j = getitem x (source_index ?perm j)) \<and>
         f x = Inr (Array r) \<and>
         shape r = map (\<lambda>a. shape x ! nat a) ?keep \<and>
         (\<forall>m\<in>set (ndindex (shape r)).
            \<exists>k. getitem r m = int k \<and>
                k < length (reduced_block t (length ?keep) m) \<and>
                reduced_block t (length ?keep) m ! k =
                  Max (set (reduced_block t (length ?keep) m)) \<and>
                (\<forall>j<k. reduced_block t (length ?keep) m ! j <
                          reduced_block t (length ?keep) m ! k))"
    by (intro exI[of _ f] exI[of _ ?t] exI[of _ r] conjI) (rule c1 c2 c3 src c4 c5 c6)+
qed

text \<open>
  On the \<open>(2,2,2)\<close> example with reduced axes \<open>(1,2)\<close> the blocks are \<open>[1,9,3,4]\<close> and
  \<open>[5,6,8,7]\<close>; the joint indices are 1 and 2, the second of which no argmax along a single
  axis of length 2 can return.
\<close>

theorem numba_funcify_Argmax_joint_witness:
  "(\<exists>f. numba_funcify_Argmax [1, 2] 3 = Inr f \<and>
        f example_cube = Inr (Array (NDArray [2] [1, 2]))) \<and>
   (\<exists>f. numba_funcify_Argmax [] 0 = Inr f \<and> f (NDArray [] [5 :: int]) = Inr (Scalar 0))"
proof -
  have h: "0 < (3::nat) \<and> distinct [1, 2 :: int] \<and> (\<forall>a\<in>set [1, 2 :: int]. 0 \<le> a \<and> a < int 3) \<and>
    wf_array example_cube \<and> length (shape example_cube) = 3 \<and>
    0 < prod_list (map (\<lambda>a. shape example_cube ! nat a) [1, 2]) \<and>
    prod_list (map (\<lambda>a. shape example_cube ! nat a) [1, 2]) < 2 ^ 63"
    by (simp add: example_cube_def wf_array_def)
  from numba_funcify_Argmax_joint[of "[1, 2]" 3 example_cube] h
  obtain f where f: "numba_funcify_Argmax [1, 2] 3 = (Inr f :: error + (int ndarray \<Rightarrow> error + int pyvalue))"
    by blast
  have "(case numba_funcify_Argmax [1, 2] 3 of Inl e \<Rightarrow> Inl e | Inr f \<Rightarrow> f example_cube) =
        Inr (Array (NDArray [2] [1, 2]))"
    by code_simp
  with f have a: "\<exists>f. numba_funcify_Argmax [1, 2] 3 = Inr f \<and>
        f example_cube = Inr (Array (NDArray [2] [1, 2]))"
    by simp
  from numba_funcify_Argmax_joint[of "[]" 0 example_cube]
  obtain g where g: "numba_funcify_Argmax [] 0 = (Inr g :: error + (int ndarray \<Rightarrow> error + int pyvalue))"
    "\<forall>x. g x = Inr (Scalar 0)"
    by blast
  then have b: "\<exists>f. numba_funcify_Argmax [] 0 = Inr f \<and> f (NDArray [] [5 :: int]) = Inr (Scalar 0)"
    by blast
  from a b show ?thesis by blast
qed


section \<open>Properties of static broadcasting\<close>


lemma distinct_single_iff: "distinct l \<Longrightarrow> set l = {x} \<Longrightarrow> l = [x]"
  by (cases l) (auto simp: insert_eq_iff dest!: subset_singletonD)

lemma distinct_two_values:
  assumes "distinct l" "a \<in> set l" "b \<in> set l" "a \<noteq> b"
  shows "\<exists>x y zs. l = x # y # zs"
proof (cases l)
  case Nil with assms show ?thesis by simp
next
  case (Cons x t)
  show ?thesis
  proof (cases t)
    case Nil with Cons assms show ?thesis by auto
  next
    case (Cons y zs) with \<open>l = x # t\<close> show ?thesis by blast
  qed
qed


lemma set_rest_of: "set (rest_of dims) = set dims - {None, Some 1}"
  by (auto simp: rest_of_def)

lemma distinct_rest_of: "distinct (rest_of dims)"
  by (simp add: rest_of_def distinct_removeAll)

lemma bsdl_many:
  assumes "remdups dims = x # y # zs"
  shows "broadcast_static_dim_lengths dims =
     (if set dims = {None, Some 1} then Inr None
      else case rest_of dims of [] \<Rightarrow> Inl StopIteration | [y] \<Rightarrow> Inr y | _ \<Rightarrow> Inl ValueError)"
  unfolding broadcast_static_dim_lengths_def Let_def set_remdups rest_of_def[symmetric]
  by (simp add: assms)

lemma bsdl_all_equal:
  assumes "dims \<noteq> []" "\<forall>x\<in>set dims. x = c"
  shows "broadcast_static_dim_lengths dims = Inr c"
proof -
  have d: "distinct (remdups dims)" by simp
  from assms(1) obtain z where z: "z \<in> set dims" by (cases dims) auto
  with assms(2) have "c \<in> set dims" by metis
  moreover have "set dims \<subseteq> {c}" using assms(2) by fast
  ultimately have "set dims = {c}" by blast
  then have s: "set (remdups dims) = {c}" by simp
  have "remdups dims = [c]" by (rule distinct_single_iff[OF d s])
  then show ?thesis unfolding broadcast_static_dim_lengths_def Let_def by simp
qed

lemma bsdl_indeterminate:
  assumes "set dims = {None, Some 1}"
  shows "broadcast_static_dim_lengths dims = Inr None"
proof -
  have "None \<in> set (remdups dims)" "Some 1 \<in> set (remdups dims)" using assms by auto
  then obtain x y zs where "remdups dims = x # y # zs"
    using distinct_two_values[of "remdups dims" None "Some 1"] by auto
  then show ?thesis using assms
    by (simp add: bsdl_many)
qed

lemma bsdl_conflict:
  assumes "Some a \<in> set dims" "Some b \<in> set dims" "a \<noteq> b" "a \<noteq> 1" "b \<noteq> 1"
  shows "broadcast_static_dim_lengths dims = Inl ValueError"
proof -
  have "Some a \<in> set (remdups dims)" "Some b \<in> set (remdups dims)" using assms by auto
  then obtain x y zs where l: "remdups dims = x # y # zs"
    using distinct_two_values[of "remdups dims" "Some a" "Some b"] assms by auto
  have ne: "set (remdups dims) \<noteq> {None, Some 1}" using assms by auto
  have "Some a \<in> set (rest_of dims)" "Some b \<in> set (rest_of dims)"
    using assms by (auto simp: set_rest_of)
  then obtain x' y' zs' where r: "rest_of dims = x' # y' # zs'"
    using distinct_two_values[of "rest_of dims" "Some a" "Some b"] assms distinct_rest_of by auto
  show ?thesis using ne r
    by (simp add: bsdl_many[OF l])
qed

lemma bsdl_otherwise:
  assumes ne: "dims \<noteq> []"
    and neq: "\<not> (\<exists>c. \<forall>x\<in>set dims. x = c)"
    and ind: "set dims \<noteq> {None, Some 1}"
    and one: "\<forall>a b. Some a \<in> set dims \<and> Some b \<in> set dims \<and> a \<noteq> 1 \<and> b \<noteq> 1 \<longrightarrow> a = b"
  shows "\<exists>n. broadcast_static_dim_lengths dims = Inr (Some n) \<and> n \<noteq> 1 \<and> Some n \<in> set dims
           \<and> (\<forall>m. Some m \<in> set dims \<and> m \<noteq> 1 \<longrightarrow> m = n)"
proof -
  have nosingle: "\<And>x. remdups dims \<noteq> [x]"
  proof
    fix x assume "remdups dims = [x]"
    then have "set dims = {x}" by (metis set_remdups list.simps(15) empty_set)
    with neq show False by auto
  qed
  have "\<not> set dims \<subseteq> {None, Some 1}"
  proof
    assume sub: "set dims \<subseteq> {None, Some 1}"
    then have el: "\<forall>x\<in>set dims. x = None \<or> x = Some 1" by auto
    show False
    proof (cases "None \<in> set dims")
      case True
      show False
      proof (cases "Some 1 \<in> set dims")
        case True
        with \<open>None \<in> set dims\<close> sub have "set dims = {None, Some 1}" by blast
        with ind show False by simp
      next
        case False
        with el have "\<forall>x\<in>set dims. x = None" by metis
        with neq show False by blast
      qed
    next
      case False
      with el have "\<forall>x\<in>set dims. x = Some 1" by metis
      with neq show False by blast
    qed
  qed
  then obtain v where v: "v \<in> set dims" "v \<noteq> None" "v \<noteq> Some 1" by auto
  then obtain n where n: "v = Some n" "n \<noteq> 1" by (cases v) auto
  have "set (rest_of dims) = {Some n}"
    using v n one by (auto simp: set_rest_of)
  then have r: "rest_of dims = [Some n]"
    by (rule distinct_single_iff[OF distinct_rest_of])
  have "remdups dims \<noteq> []" using ne by simp
  with nosingle obtain x y zs where l: "remdups dims = x # y # zs"
    by (cases "remdups dims"; cases "tl (remdups dims)") auto
  have "broadcast_static_dim_lengths dims = Inr (Some n)"
    using ind r by (simp add: bsdl_many[OF l])
  moreover have "\<forall>m. Some m \<in> set dims \<and> m \<noteq> 1 \<longrightarrow> m = n"
    using v n one by blast
  ultimately show ?thesis using v n by blast
qed


text \<open>
  Claim C10, as the code has it. For a non-empty sequence of static lengths:
  when all entries are equal the common entry is returned; when the set of entries is
  exactly \<open>{None, 1}\<close> the result is \<open>None\<close>; when two distinct lengths both different
  from 1 occur, \<open>ValueError\<close> is raised; in every other case the result is the unique
  length different from 1 (which may be 0, so it need not be greater than 1).
\<close>

theorem broadcast_static_dim_lengths_cases:
  "dims \<noteq> [] \<Longrightarrow>
     ((\<forall>x\<in>set dims. x = c) \<longrightarrow> broadcast_static_dim_lengths dims = Inr c) \<and>
     (set dims = {None, Some 1} \<longrightarrow> broadcast_static_dim_lengths dims = Inr None) \<and>
     ((\<exists>a b. Some a \<in> set dims \<and> Some b \<in> set dims \<and> a \<noteq> b \<and> a \<noteq> 1 \<and> b \<noteq> 1)
        \<longrightarrow> broadcast_static_dim_lengths dims = Inl ValueError) \<and>
     (\<not> (\<exists>c'. \<forall>x\<in>set dims. x = c') \<and> set dims \<noteq> {None, Some 1} \<and>
      \<not> (\<exists>a b. Some a \<in> set dims \<and> Some b \<in> set dims \<and> a \<noteq> b \<and> a \<noteq> 1 \<and> b \<noteq> 1)
        \<longrightarrow> (\<exists>n. broadcast_static_dim_lengths dims = Inr (Some n) \<and> n \<noteq> 1 \<and>
                 Some n \<in> set dims \<and> (\<forall>m. Some m \<in> set dims \<and> m \<noteq> 1 \<longrightarrow> m = n)))"
proof (intro conjI impI)
  assume "dims \<noteq> []" "\<forall>x\<in>set dims. x = c"
  then show "broadcast_static_dim_lengths dims = Inr c" by (rule bsdl_all_equal)
next
  assume "set dims = {None, Some 1}"
  then show "broadcast_static_dim_lengths dims = Inr None" by (rule bsdl_indeterminate)
next
  assume "\<exists>a b. Some a \<in> set dims \<and> Some b \<in> set dims \<and> a \<noteq> b \<and> a \<noteq> 1 \<and> b \<noteq> 1"
  then obtain a b where "Some a \<in> set dims" "Some b \<in> set dims" "a \<noteq> b" "a \<noteq> 1" "b \<noteq> 1"
    by blast
  then show "broadcast_static_dim_lengths dims = Inl ValueError" by (rule bsdl_conflict)
next
  assume ne: "dims \<noteq> []"
    and h: "\<not> (\<exists>c'. \<forall>x\<in>set dims. x = c') \<and> set dims \<noteq> {None, Some 1} \<and>
      \<not> (\<exists>a b. Some a \<in> set dims \<and> Some b \<in> set dims \<and> a \<noteq> b \<and> a \<noteq> 1 \<and> b \<noteq> 1)"
  from h have one: "\<forall>a b. Some a \<in> set dims \<and> Some b \<in> set dims \<and> a \<noteq> 1 \<and> b \<noteq> 1 \<longrightarrow> a = b"
    by blast
  from h show "\<exists>n. broadcast_static_dim_lengths dims = Inr (Some n) \<and> n \<noteq> 1 \<and>
                 Some n \<in> set dims \<and> (\<forall>m. Some m \<in> set dims \<and> m \<noteq> 1 \<longrightarrow> m = n)"
    using bsdl_otherwise[OF ne _ _ one] by blast
qed

theorem broadcast_static_dim_lengths_cases_witness:
  "broadcast_static_dim_lengths [Some 3, Some 3] = Inr (Some 3) \<and>
   broadcast_static_dim_lengths [None, Some 1] = Inr None \<and>
   broadcast_static_dim_lengths [Some 2, None, Some 3] = Inl ValueError \<and>
   (\<exists>n. broadcast_static_dim_lengths [Some 1, Some 5, None] = Inr (Some n) \<and> n \<noteq> 1)"
proof -
  have n1: "[Some 3, Some (3::int)] \<noteq> []"
    and n2: "[None, Some (1::int)] \<noteq> []"
    and n3: "[Some 2, None, Some (3::int)] \<noteq> []"
    and n4: "[Some 1, Some 5, (None::int option)] \<noteq> []"
    by simp_all
  have h1: "\<forall>x\<in>set [Some 3, Some (3::int)]. x = Some 3" by simp
  have h2: "set [None, Some (1::int)] = {None, Some 1}" by simp
  have h3: "\<exists>a b. Some a \<in> set [Some 2, None, Some (3::int)] \<and>
              Some b \<in> set [Some 2, None, Some 3] \<and> a \<noteq> b \<and> a \<noteq> 1 \<and> b \<noteq> 1"
    by (rule exI[of _ 2], rule exI[of _ 3]) simp
  have h4a: "\<not> (\<exists>c'. \<forall>x\<in>set [Some 1, Some 5, (None::int option)]. x = c')" by simp
  have h4b: "set [Some 1, Some 5, (None::int option)] \<noteq> {None, Some 1}"
  proof
    assume e: "set [Some 1, Some 5, (None::int option)] = {None, Some 1}"
    have "Some 5 \<in> set [Some 1, Some 5, (None::int option)]" by simp
    then have "Some (5::int) \<in> {None, Some 1}" unfolding e .
    then show False by simp
  qed
  have h4c: "\<not> (\<exists>a b. Some a \<in> set [Some 1, Some 5, (None::int option)] \<and>
              Some b \<in> set [Some 1, Some 5, None] \<and> a \<noteq> b \<and> a \<noteq> 1 \<and> b \<noteq> 1)"
    by auto
  have r1: "broadcast_static_dim_lengths [Some 3, Some 3] = Inr (Some 3)"
    using broadcast_static_dim_lengths_cases[OF n1, of "Some 3"] h1 by blast
  have r2: "broadcast_static_dim_lengths [None, Some 1] = Inr None"
    using broadcast_static_dim_lengths_cases[OF n2, of None] h2 by blast
  have r3: "broadcast_static_dim_lengths [Some 2, None, Some 3] = Inl ValueError"
    using broadcast_static_dim_lengths_cases[OF n3, of None] h3 by blast
  have r4: "\<exists>n. broadcast_static_dim_lengths [Some 1, Some 5, None] = Inr (Some n) \<and> n \<noteq> 1"
    using broadcast_static_dim_lengths_cases[OF n4, of None] h4a h4b h4c by blast
  from r1 r2 r3 r4 show ?thesis by blast
qed

text \<open>
  Claim C10 as stated fails on lengths 0 and 1: the entries are not all equal, are not
  \<open>{None, 1}\<close>, hold no two distinct lengths different from 1, and the result 0 is not
  greater than 1.
\<close>

theorem broadcast_static_dim_lengths_zero_counterexample:
  "broadcast_static_dim_lengths [Some 0, Some 1] = Inr (Some 0) \<and> \<not> (1::int) < 0"
  by (auto simp: broadcast_static_dim_lengths_def)


end
